theory Spec2Isabelle
  imports Complex_Main
begin

section \<open>The Oak evolution loop (class OakEvolutionLoop)\<close>

text \<open>
  The loop drives opaque agents through generations. The embedding follows the class
  method by method. What the class cannot see is supplied by an environment record:
  the values of \<^verbatim>\<open>Math.random()\<close>, the way each agent call settles and the
  wall clock. Every
  use of the environment is numbered by a counter (\<open>tick\<close>) that the methods thread through,
  so an agent may answer differently each time it is called. The calls of one
  \<^verbatim>\<open>Promise.all\<close> are taken in array order. Every awaited call is taken to settle,
  by resolving or by throwing; only \<open>act\<close>, which the loop races against a timer, may
  stay pending. Listeners of the emitted events are outside the embedding.
\<close>

subsection \<open>Values\<close>

text \<open>
  An array slot or a variable of type \<^verbatim>\<open>IMetaAgent\<close> holds a reference to an agent
  object, or \<^verbatim>\<open>undefined\<close> after a read outside an array.
\<close>

datatype agent = Undefined | Agent nat

text \<open>The members of \<^verbatim>\<open>IMetaAgent\<close> that the loop calls.\<close>

datatype capability =
    LearnPoliciesAndValues | GenerateNewFeatures | RankFeatures | CreateSubproblems
  | LearnSubproblemSolutions | LearnTransitionModels | Plan | MaintainMetadata
  | Learn | Act

text \<open>
  A JavaScript number as far as the loop produces one: a finite value (taken as a real),
  an infinity, or NaN.
\<close>

datatype jsnum = NaN | NegInfinity | PosInfinity | Fin real

fun js_neg :: "jsnum \<Rightarrow> jsnum" where
  "js_neg NaN = NaN"
| "js_neg NegInfinity = PosInfinity"
| "js_neg PosInfinity = NegInfinity"
| "js_neg (Fin x) = Fin (- x)"

fun js_add :: "jsnum \<Rightarrow> jsnum \<Rightarrow> jsnum" where
  "js_add NaN b = NaN"
| "js_add a NaN = NaN"
| "js_add (Fin x) (Fin y) = Fin (x + y)"
| "js_add (Fin x) b = b"
| "js_add a (Fin y) = a"
| "js_add PosInfinity PosInfinity = PosInfinity"
| "js_add NegInfinity NegInfinity = NegInfinity"
| "js_add PosInfinity NegInfinity = NaN"
| "js_add NegInfinity PosInfinity = NaN"

definition js_sub :: "jsnum \<Rightarrow> jsnum \<Rightarrow> jsnum" where
  "js_sub a b = js_add a (js_neg b)"

fun js_abs :: "jsnum \<Rightarrow> jsnum" where
  "js_abs NaN = NaN"
| "js_abs NegInfinity = PosInfinity"
| "js_abs PosInfinity = PosInfinity"
| "js_abs (Fin x) = Fin \<bar>x\<bar>"

text \<open>Division by a positive count.\<close>

fun js_div :: "jsnum \<Rightarrow> nat \<Rightarrow> jsnum" where
  "js_div (Fin x) n = Fin (x / real n)"
| "js_div a n = a"

text \<open>\<^verbatim>\<open>a < b\<close>: false as soon as one side is NaN.\<close>

fun js_lt :: "jsnum \<Rightarrow> jsnum \<Rightarrow> bool" where
  "js_lt NaN b = False"
| "js_lt a NaN = False"
| "js_lt (Fin x) (Fin y) = (x < y)"
| "js_lt NegInfinity b = (b \<noteq> NegInfinity)"
| "js_lt a PosInfinity = (a \<noteq> PosInfinity)"
| "js_lt a b = False"

definition js_gt :: "jsnum \<Rightarrow> jsnum \<Rightarrow> bool" where
  "js_gt a b = js_lt b a"

text \<open>\<^verbatim>\<open>Math.max(...xs)\<close> over finite numbers: \<open>-Infinity\<close> for no argument.\<close>

fun Math_max :: "real list \<Rightarrow> jsnum" where
  "Math_max [] = NegInfinity"
| "Math_max (x # xs) = (case Math_max xs of Fin m \<Rightarrow> Fin (max x m) | _ \<Rightarrow> Fin x)"

text \<open>\<^verbatim>\<open>xs[i]\<close> on an array of agents: \<^verbatim>\<open>undefined\<close> outside the array.\<close>

definition agent_at :: "agent list \<Rightarrow> int \<Rightarrow> agent" where
  "agent_at xs i = (if 0 \<le> i \<and> i < int (length xs) then xs ! nat i else Undefined)"

text \<open>\<^verbatim>\<open>xs[i]\<close> on an array of numbers: \<open>None\<close> is \<^verbatim>\<open>undefined\<close>.\<close>

definition number_at :: "real list \<Rightarrow> int \<Rightarrow> real option" where
  "number_at xs i = (if 0 \<le> i \<and> i < int (length xs) then Some (xs ! nat i) else None)"

text \<open>\<^verbatim>\<open>xs.indexOf(v)\<close>: the first index holding \<open>v\<close>, or \<open>-1\<close>.\<close>

fun indexOf :: "real list \<Rightarrow> jsnum \<Rightarrow> int" where
  "indexOf [] v = - 1"
| "indexOf (x # xs) v =
     (if Fin x = v then 0 else (let i = indexOf xs v in if i < 0 then - 1 else i + 1))"

subsection \<open>Interfaces and configuration\<close>

datatype param = PNum real | PStr string

record IAction =
  atype :: string
  parameters :: "(string \<times> param) list"

text \<open>
  An experience as the loop builds it. The feature maps are kept as the lists of their
  values in insertion order; identifiers, timestamps and context objects are left out,
  since the loop never reads them back.
\<close>

record IExperience =
  exp_state :: "real list"
  exp_action :: IAction
  exp_reward :: real
  exp_nextState :: "real list"
  exp_done :: bool

text \<open>
  The configuration. The sizes, the generation limit and the timeout (in milliseconds)
  are counts; the rates, the threshold and the weight are numbers.
\<close>

record EvolutionConfig =
  populationSize :: nat
  generationLimit :: nat
  mutationRate :: real
  crossoverRate :: real
  eliteSize :: nat
  evaluationTimeout :: nat
  convergenceThreshold :: real
  diversityWeight :: real

text \<open>The defaults of the constructor.\<close>

definition default_config :: EvolutionConfig where
  "default_config =
     \<lparr> populationSize = 50, generationLimit = 100, mutationRate = 1 / 10,
       crossoverRate = 7 / 10, eliteSize = 5, evaluationTimeout = 30000,
       convergenceThreshold = 1 / 1000, diversityWeight = 3 / 10 \<rparr>"

record EvolutionMetrics =
  m_generation :: nat
  m_bestFitness :: jsnum
  averageFitness :: jsnum
  diversity :: jsnum
  convergenceRate :: jsnum
  runtime :: int

subsection \<open>The environment and the world\<close>

text \<open>
  How \<^verbatim>\<open>agent.act(state)\<close> settles: it resolves with an action or rejects after some
  milliseconds, counted from the moment the timer of the evaluation is set, or it never
  settles.
\<close>

datatype act_outcome = Resolves nat IAction | Rejects nat | Never

record env =
  rnd :: "nat \<Rightarrow> real"
  resolves :: "nat \<Rightarrow> nat \<Rightarrow> capability \<Rightarrow> bool"
  acts :: "nat \<Rightarrow> nat \<Rightarrow> act_outcome"
  clock :: "nat \<Rightarrow> nat"

text \<open>
  \<open>rnd E t\<close> feeds the draw numbered \<open>t\<close>; \<open>resolves E t k c\<close> tells whether the call
  numbered \<open>t\<close> of capability \<open>c\<close> on agent \<open>k\<close> resolves (it throws otherwise);
  \<open>acts E t k\<close> is how the \<open>act\<close> call numbered \<open>t\<close> on agent \<open>k\<close> settles;
  \<open>clock E t\<close> is \<^verbatim>\<open>Date.now()\<close> at count \<open>t\<close>.
\<close>

datatype event =
    Draw
  | Call agent capability
  | Evaluated agent real
  | EvolutionStarted
  | NewBestAgent agent jsnum nat
  | GenerationComplete EvolutionMetrics
  | EvolutionComplete "agent option" jsnum nat

text \<open>The world: the counter and what has happened so far, newest event first.\<close>

record world =
  tick :: nat
  events :: "event list"

text \<open>\<^verbatim>\<open>this.emit(...)\<close>, and the record of an evaluation.\<close>

definition emit :: "event \<Rightarrow> world \<Rightarrow> world" where
  "emit e w = w\<lparr>events := e # events w\<rparr>"

text \<open>
  \<^verbatim>\<open>Math.random()\<close>: a number in \<open>[0, 1)\<close>, whatever the environment feeds.
\<close>

definition Math_random :: "env \<Rightarrow> world \<Rightarrow> real \<times> world" where
  "Math_random E w = (frac (rnd E (tick w)), \<lparr>tick = Suc (tick w), events = Draw # events w\<rparr>)"

text \<open>
  An awaited call of a capability: \<open>True\<close> when it resolves, \<open>False\<close> when it throws. A call
  on \<^verbatim>\<open>undefined\<close> throws a TypeError.
\<close>

definition invoke :: "env \<Rightarrow> agent \<Rightarrow> capability \<Rightarrow> world \<Rightarrow> bool \<times> world" where
  "invoke E a c w =
     ((case a of Undefined \<Rightarrow> False | Agent k \<Rightarrow> resolves E (tick w) k c),
      \<lparr>tick = Suc (tick w), events = Call a c # events w\<rparr>)"

text \<open>\<^verbatim>\<open>await agent.learn(experience)\<close>; the agent is opaque, so the experience only
  matters through the environment's answer.\<close>

definition learn :: "env \<Rightarrow> agent \<Rightarrow> IExperience \<Rightarrow> world \<Rightarrow> bool \<times> world" where
  "learn E a x w = invoke E a Learn w"

text \<open>
  \<^verbatim>\<open>for (const experience of experiences) await agent.learn(experience)\<close>, leaving at the
  first throw.
\<close>

fun learn_each :: "env \<Rightarrow> agent \<Rightarrow> IExperience list \<Rightarrow> world \<Rightarrow> bool \<times> world" where
  "learn_each E a [] w = (True, w)"
| "learn_each E a (x # xs) w =
     (let (ok, w1) = learn E a x w in if ok then learn_each E a xs w1 else (False, w1))"

subsection \<open>Mutation and crossover\<close>

text \<open>One pass of the loop of generateMutationExperiences: nine draws in source order.\<close>

definition mutationExperience :: "env \<Rightarrow> nat \<Rightarrow> world \<Rightarrow> IExperience \<times> world" where
  "mutationExperience E i w =
     (let (exploration, w1) = Math_random E w;
          (adaptation, w2) = Math_random E w1;
          (novelty, w3) = Math_random E w2;
          (intensity, w4) = Math_random E w3;
          (direction, w5) = Math_random E w4;
          (reward, w6) = Math_random E w5;
          (exploration', w7) = Math_random E w6;
          (adaptation', w8) = Math_random E w7;
          (novelty', w9) = Math_random E w8
      in (\<lparr> exp_state = [exploration, adaptation, novelty],
             exp_action = \<lparr> atype = ''mutate'',
               parameters = [(''intensity'', PNum (intensity * (2 / 10))),
                 (''direction'', PStr (if direction > 1 / 2 then ''increase'' else ''decrease''))] \<rparr>,
             exp_reward = (reward - 1 / 2) * (1 / 10),
             exp_nextState = [exploration', adaptation', novelty'],
             exp_done = False \<rparr>, w9))"

text \<open>The loop \<^verbatim>\<open>for (let i = 0; i < numExperiences; i++)\<close>, from \<open>i\<close> for \<open>n\<close> passes.\<close>

fun mutationExperiences :: "env \<Rightarrow> nat \<Rightarrow> nat \<Rightarrow> world \<Rightarrow> IExperience list \<times> world" where
  "mutationExperiences E i 0 w = ([], w)"
| "mutationExperiences E i (Suc n) w =
     (let (x, w1) = mutationExperience E i w;
          (xs, w2) = mutationExperiences E (Suc i) n w1
      in (x # xs, w2))"

definition generateMutationExperiences :: "env \<Rightarrow> world \<Rightarrow> IExperience list \<times> world" where
  "generateMutationExperiences E w =
     (let (r, w1) = Math_random E w;
          numExperiences = nat \<lfloor>r * 5\<rfloor> + 1
      in mutationExperiences E 0 numExperiences w1)"

text \<open>mutateAgent: both the try block and the catch block return the agent passed in.\<close>

definition mutateAgent :: "env \<Rightarrow> agent \<Rightarrow> world \<Rightarrow> agent \<times> world" where
  "mutateAgent E a w =
     (let (mutationExperiences, w1) = generateMutationExperiences E w;
          (ok, w2) = learn_each E a mutationExperiences w1
      in if ok then (a, w2) else (a, w2))"

definition crossoverExperience :: "env \<Rightarrow> nat \<Rightarrow> world \<Rightarrow> IExperience \<times> world" where
  "crossoverExperience E i w =
     (let (knowledge_transfer, w1) = Math_random E w;
          (policy_blend, w2) = Math_random E w1;
          (hybrid_capability, w3) = Math_random E w2;
          (transfer_rate, w4) = Math_random E w3;
          (integration_mode, w5) = Math_random E w4;
          (reward, w6) = Math_random E w5;
          (knowledge_transfer', w7) = Math_random E w6;
          (policy_blend', w8) = Math_random E w7;
          (hybrid_capability', w9) = Math_random E w8
      in (\<lparr> exp_state = [knowledge_transfer, policy_blend, hybrid_capability],
             exp_action = \<lparr> atype = ''integrate_knowledge'',
               parameters = [(''transfer_rate'', PNum (transfer_rate * (1 / 2) + 1 / 4)),
                 (''integration_mode'',
                    PStr (if integration_mode > 1 / 2 then ''additive'' else ''selective''))] \<rparr>,
             exp_reward = reward * (3 / 10),
             exp_nextState = [knowledge_transfer' * (1 / 2) + 1 / 2, policy_blend',
               hybrid_capability' * (3 / 10) + 7 / 10],
             exp_done = False \<rparr>, w9))"

fun crossoverExperiences :: "env \<Rightarrow> nat \<Rightarrow> nat \<Rightarrow> world \<Rightarrow> IExperience list \<times> world" where
  "crossoverExperiences E i 0 w = ([], w)"
| "crossoverExperiences E i (Suc n) w =
     (let (x, w1) = crossoverExperience E i w;
          (xs, w2) = crossoverExperiences E (Suc i) n w1
      in (x # xs, w2))"

definition generateCrossoverExperiences :: "env \<Rightarrow> world \<Rightarrow> IExperience list \<times> world" where
  "generateCrossoverExperiences E w =
     (let (r, w1) = Math_random E w;
          numExperiences = nat \<lfloor>r * 3\<rfloor> + 2
      in crossoverExperiences E 0 numExperiences w1)"

text \<open>
  crossoverAgents: the parent picked by the draw learns the experiences and is returned;
  when a learn call throws, the catch block returns the first parent.
\<close>

definition crossoverAgents :: "env \<Rightarrow> agent \<Rightarrow> agent \<Rightarrow> world \<Rightarrow> agent \<times> world" where
  "crossoverAgents E parent1 parent2 w =
     (let (r, w1) = Math_random E w;
          selectedParent = (if r > 1 / 2 then parent1 else parent2);
          (crossoverExperiences, w2) = generateCrossoverExperiences E w1;
          (ok, w3) = learn_each E selectedParent crossoverExperiences w2
      in if ok then (selectedParent, w3) else (parent1, w3))"

text \<open>selectRandomAgent: a draw over the population without the given agent.\<close>

definition selectRandomAgent :: "env \<Rightarrow> agent list \<Rightarrow> agent \<Rightarrow> world \<Rightarrow> agent \<times> world" where
  "selectRandomAgent E population excludeAgent w =
     (let candidates = filter (\<lambda>a. a \<noteq> excludeAgent) population;
          (r, w1) = Math_random E w
      in (agent_at candidates \<lfloor>r * real (length candidates)\<rfloor>, w1))"

text \<open>applyEvolution; \<open>population\<close> is \<^verbatim>\<open>this.population\<close>, the population before the cycle.\<close>

definition applyEvolution ::
  "EvolutionConfig \<Rightarrow> env \<Rightarrow> agent list \<Rightarrow> agent \<Rightarrow> world \<Rightarrow> agent \<times> world" where
  "applyEvolution cfg E population a w =
     (let (r1, w1) = Math_random E w;
          (evolvedAgent, w2) = (if r1 < mutationRate cfg then mutateAgent E a w1 else (a, w1));
          (r2, w3) = Math_random E w2
      in if r2 < crossoverRate cfg \<and> length population > 1
         then (let (otherParent, w4) = selectRandomAgent E population a w3
               in crossoverAgents E evolvedAgent otherParent w4)
         else (evolvedAgent, w3))"

subsection \<open>The Oak cycle\<close>

text \<open>The eight awaited steps of executeAgentOakCycle, in order.\<close>

definition oak_steps :: "capability list" where
  "oak_steps =
     [LearnPoliciesAndValues, GenerateNewFeatures, RankFeatures, CreateSubproblems,
      LearnSubproblemSolutions, LearnTransitionModels, Plan, MaintainMetadata]"

text \<open>Awaiting the steps one after the other; the first throw leaves the try block.\<close>

fun await_steps :: "env \<Rightarrow> agent \<Rightarrow> capability list \<Rightarrow> world \<Rightarrow> bool \<times> world" where
  "await_steps E a [] w = (True, w)"
| "await_steps E a (c # cs) w =
     (let (ok, w1) = invoke E a c w in if ok then await_steps E a cs w1 else (False, w1))"

text \<open>
  executeAgentOakCycle: after the eight steps the result is that of applyEvolution; the
  catch block returns the agent as it came.
\<close>

definition executeAgentOakCycle ::
  "EvolutionConfig \<Rightarrow> env \<Rightarrow> agent list \<Rightarrow> agent \<Rightarrow> world \<Rightarrow> agent \<times> world" where
  "executeAgentOakCycle cfg E population a w =
     (let (ok, w1) = await_steps E a oak_steps w
      in if ok then applyEvolution cfg E population a w1 else (a, w1))"

text \<open>\<^verbatim>\<open>Promise.all(batch.map(agent => this.executeAgentOakCycle(agent)))\<close>.\<close>

fun oak_batch ::
  "EvolutionConfig \<Rightarrow> env \<Rightarrow> agent list \<Rightarrow> agent list \<Rightarrow> world \<Rightarrow> agent list \<times> world" where
  "oak_batch cfg E population [] w = ([], w)"
| "oak_batch cfg E population (a # batch) w =
     (let (r, w1) = executeAgentOakCycle cfg E population a w;
          (rs, w2) = oak_batch cfg E population batch w1
      in (r # rs, w2))"

text \<open>
  The batch loop of executeOakCycle, \<^verbatim>\<open>for (let i = 0; i < population.length; i += batchSize)\<close>;
  \<open>slice(i, i + batchSize)\<close> is \<open>take batchSize (drop i population)\<close>.
\<close>

function oak_batches ::
  "EvolutionConfig \<Rightarrow> env \<Rightarrow> agent list \<Rightarrow> nat \<Rightarrow> agent list \<Rightarrow> world \<Rightarrow> agent list \<times> world"
  where
  "oak_batches cfg E population i newGeneration w =
     (let batchSize = min 10 (length population)
      in if i < length population
         then (let batch = take batchSize (drop i population);
                   (batchResults, w1) = oak_batch cfg E population batch w
               in oak_batches cfg E population (i + batchSize) (newGeneration @ batchResults) w1)
         else (newGeneration, w))"
  by pat_completeness auto
termination
  by (relation "measure (\<lambda>(cfg, E, population, i, newGeneration, w). length population - i)") auto

definition executeOakCycle ::
  "EvolutionConfig \<Rightarrow> env \<Rightarrow> agent list \<Rightarrow> world \<Rightarrow> agent list \<times> world" where
  "executeOakCycle cfg E population w = oak_batches cfg E population 0 [] w"

subsection \<open>Fitness evaluation\<close>

text \<open>
  The state of the evaluation harness. Its feature map always holds the same five keys
  (generateRandomState and simulateEnvironmentStep both write all of them), so it is a
  record of the five values.
\<close>

record IState =
  challenge_level :: real
  complexity :: real
  noise_level :: real
  resource_availability :: real
  time_pressure :: real

definition state_features :: "IState \<Rightarrow> real list" where
  "state_features st =
     [challenge_level st, complexity st, noise_level st, resource_availability st,
      time_pressure st]"

text \<open>generateRandomState: the draw of the identifier, five features, the difficulty.\<close>

definition generateRandomState :: "env \<Rightarrow> world \<Rightarrow> IState \<times> world" where
  "generateRandomState E w =
     (let (ident, w1) = Math_random E w;
          (r1, w2) = Math_random E w1;
          (r2, w3) = Math_random E w2;
          (r3, w4) = Math_random E w3;
          (r4, w5) = Math_random E w4;
          (r5, w6) = Math_random E w5;
          (difficulty, w7) = Math_random E w6
      in (\<lparr> challenge_level = r1, complexity = r2, noise_level = r3 * (3 / 10),
             resource_availability = r4, time_pressure = r5 \<rparr>, w7))"

text \<open>\<^verbatim>\<open>s.includes(sub)\<close>.\<close>

fun str_includes :: "string \<Rightarrow> string \<Rightarrow> bool" where
  "str_includes [] sub = (sub = [])"
| "str_includes (c # cs) sub = (take (length sub) (c # cs) = sub \<or> str_includes cs sub)"

text \<open>
  assessActionQuality. \<^verbatim>\<open>state.features.get('complexity') || 0.5\<close> replaces a
  complexity of zero by one half. The action complexity is the number \<open>n\<close> of parameter
  keys times \<open>0.1\<close>, a product of doubles: \<^verbatim>\<open>n * 0.1 > 0.3\<close> holds from \<open>n = 3\<close> on
  (\<open>3 * 0.1\<close> is \<open>0.30000000000000004\<close>) and \<^verbatim>\<open>n * 0.1 > 0.5\<close> from \<open>n = 6\<close> on
  (\<open>5 * 0.1\<close> is \<open>0.5\<close>), so the two tests are made on the count.
\<close>

definition assessActionQuality :: "IState \<Rightarrow> IAction \<Rightarrow> real" where
  "assessActionQuality st action =
     (let quality = 1 / 2;
          stateComplexity = (if complexity st = 0 then 1 / 2 else complexity st);
          keys = length (parameters action);
          quality = (if stateComplexity > 7 / 10 \<and> 3 \<le> keys
                     then quality + 3 / 10 else quality);
          quality = (if stateComplexity < 3 / 10 \<and> 6 \<le> keys
                     then quality - 2 / 10 else quality);
          quality = (if str_includes (atype action) ''adapt'' \<or> str_includes (atype action) ''learn''
                     then quality + 2 / 10 else quality)
      in max (1 / 10) (min 1 quality))"

text \<open>simulateEnvironmentStep: the next state and the value of the reward.\<close>

definition simulateEnvironmentStep ::
  "env \<Rightarrow> IState \<Rightarrow> IAction \<Rightarrow> world \<Rightarrow> (IState \<times> real) \<times> world" where
  "simulateEnvironmentStep E st action w =
     (let (r0, w1) = Math_random E w;
          baseReward = r0 * 2 - 1;
          actionQuality = assessActionQuality st action;
          environmentReward = baseReward * actionQuality;
          (r1, w2) = Math_random E w1;
          (r2, w3) = Math_random E w2;
          (r3, w4) = Math_random E w3;
          (r4, w5) = Math_random E w4;
          (r5, w6) = Math_random E w5;
          nextState =
            \<lparr> challenge_level = max 0 (challenge_level st + (r1 - 1 / 2) * (2 / 10)),
              complexity = max 0 (complexity st + (r2 - 1 / 2) * (1 / 10)),
              noise_level = max 0 (min 1 (noise_level st + (r3 - 1 / 2) * (1 / 10))),
              resource_availability =
                max 0 (min 1 (resource_availability st + (r4 - 1 / 2) * (15 / 100))),
              time_pressure = max 0 (min 1 (time_pressure st + (r5 - 1 / 2) * (1 / 10))) \<rparr>
      in ((nextState, environmentReward), w6))"

text \<open>
  The timer of the race is \<^verbatim>\<open>setTimeout(..., this.config.evaluationTimeout)\<close>. The
  runtime sets a delay below 1 or above \<open>2^31 - 1\<close> to one millisecond.
\<close>

definition timer_delay :: "nat \<Rightarrow> nat" where
  "timer_delay timeout = (if timeout < 1 \<or> 2147483647 < timeout then 1 else timeout)"

text \<open>
  The race of \<^verbatim>\<open>agent.act(currentState)\<close> against that timer: \<open>Some\<close> the action when
  the call resolves before the timer fires, \<open>None\<close> when the race rejects (the call
  rejects, the timer fires first, or the agent is \<^verbatim>\<open>undefined\<close>). The call is made
  first and the timer is set once the call has returned its promise. The delay of an
  outcome of \<open>act\<close> counts from that moment: a promise that is settled on return, or
  settles before control goes back to the event loop, has delay 0 however long the call
  took. An outcome whose delay equals that of the timer comes first, as a timer that the
  call itself set does.
\<close>

definition resolves_within :: "act_outcome \<Rightarrow> nat \<Rightarrow> bool" where
  "resolves_within out delay =
     (case out of Resolves d x \<Rightarrow> d \<le> delay | Rejects d \<Rightarrow> False | Never \<Rightarrow> False)"

definition race_act ::
  "EvolutionConfig \<Rightarrow> env \<Rightarrow> agent \<Rightarrow> IState \<Rightarrow> world \<Rightarrow> IAction option \<times> world" where
  "race_act cfg E a st w =
     ((case a of
         Undefined \<Rightarrow> None
       | Agent k \<Rightarrow>
           (case acts E (tick w) k of
              Resolves d x \<Rightarrow>
                if d \<le> timer_delay (evaluationTimeout cfg) then Some x else None
            | Rejects d \<Rightarrow> None
            | Never \<Rightarrow> None)),
      \<lparr>tick = Suc (tick w), events = Call a Act # events w\<rparr>)"

text \<open>
  The body of the loop \<^verbatim>\<open>for (let step = 0; step < evaluationSteps; step++)\<close>, over
  the list of the remaining values of \<open>step\<close>. \<open>None\<close> is a throw out of the try block.
\<close>

definition evaluationSteps :: nat where
  "evaluationSteps = 10"

fun evaluation_loop ::
  "EvolutionConfig \<Rightarrow> env \<Rightarrow> agent \<Rightarrow> nat list \<Rightarrow> real \<Rightarrow> IState \<Rightarrow> world
     \<Rightarrow> real option \<times> world" where
  "evaluation_loop cfg E a [] totalReward currentState w = (Some totalReward, w)"
| "evaluation_loop cfg E a (step # steps) totalReward currentState w =
     (let (raced, w1) = race_act cfg E a currentState w
      in case raced of
           None \<Rightarrow> (None, w1)
         | Some action \<Rightarrow>
             (let ((nextState, reward), w2) = simulateEnvironmentStep E currentState action w1;
                  totalReward = totalReward + reward;
                  (ok, w3) = learn E a
                     \<lparr> exp_state = state_features currentState, exp_action = action,
                       exp_reward = reward, exp_nextState = state_features nextState,
                       exp_done = (step = evaluationSteps - 1) \<rparr> w2
              in if ok then evaluation_loop cfg E a steps totalReward nextState w3
                 else (None, w3)))"

text \<open>The try block of evaluateAgent.\<close>

definition evaluateAgent_try ::
  "EvolutionConfig \<Rightarrow> env \<Rightarrow> agent \<Rightarrow> world \<Rightarrow> real option \<times> world" where
  "evaluateAgent_try cfg E a w =
     (let (currentState, w1) = generateRandomState E w;
          (total, w2) = evaluation_loop cfg E a [0..<evaluationSteps] 0 currentState w1
      in case total of
           None \<Rightarrow> (None, w2)
         | Some totalReward \<Rightarrow>
             (let baseFitness = totalReward / real evaluationSteps;
                  (r1, w3) = Math_random E w2;
                  complexityBonus = r1 * (1 / 10);
                  (r2, w4) = Math_random E w3;
                  diversityBonus = r2 * (5 / 100) * diversityWeight cfg
              in (Some (baseFitness + complexityBonus + diversityBonus), w4)))"

text \<open>evaluateAgent: the catch block turns every throw into the penalty \<open>-1\<close>.\<close>

definition evaluateAgent :: "EvolutionConfig \<Rightarrow> env \<Rightarrow> agent \<Rightarrow> world \<Rightarrow> real \<times> world" where
  "evaluateAgent cfg E a w =
     (let (r, w1) = evaluateAgent_try cfg E a w;
          fitness = (case r of Some f \<Rightarrow> f | None \<Rightarrow> - 1)
      in (fitness, emit (Evaluated a fitness) w1))"

text \<open>evaluatePopulation: one score per agent, in array order.\<close>

fun evaluatePopulation ::
  "EvolutionConfig \<Rightarrow> env \<Rightarrow> agent list \<Rightarrow> world \<Rightarrow> real list \<times> world" where
  "evaluatePopulation cfg E [] w = ([], w)"
| "evaluatePopulation cfg E (a # population) w =
     (let (f, w1) = evaluateAgent cfg E a w;
          (fs, w2) = evaluatePopulation cfg E population w1
      in (f # fs, w2))"

subsection \<open>The fields of the loop object\<close>

text \<open>The configuration is fixed by the constructor and is passed on its own.\<close>

record OakEvolutionLoop =
  population :: "agent list"
  generation :: nat
  bestAgent :: "agent option"
  bestFitness :: jsnum
  metrics :: "EvolutionMetrics list"
  isRunning :: bool

text \<open>The field initialisers; \<open>None\<close> is \<^verbatim>\<open>null\<close>.\<close>

definition new_loop :: OakEvolutionLoop where
  "new_loop =
     \<lparr> population = [], generation = 0, bestAgent = None, bestFitness = NegInfinity,
       metrics = [], isRunning = False \<rparr>"

definition stop :: "OakEvolutionLoop \<Rightarrow> OakEvolutionLoop" where
  "stop s = s\<lparr>isRunning := False\<rparr>"

subsection \<open>Best agent and metrics\<close>

definition updateBestAgent ::
  "OakEvolutionLoop \<Rightarrow> agent list \<Rightarrow> real list \<Rightarrow> world \<Rightarrow> OakEvolutionLoop \<times> world" where
  "updateBestAgent s newGeneration fitnessScores w =
     (let maxFitness = Math_max fitnessScores
      in if js_gt maxFitness (bestFitness s)
         then (let bestIndex = indexOf fitnessScores maxFitness;
                   best = agent_at newGeneration bestIndex
               in (s\<lparr>bestAgent := Some best, bestFitness := maxFitness\<rparr>,
                   emit (NewBestAgent best maxFitness (generation s)) w))
         else (s, w))"

text \<open>
  calculateConvergenceRate reads \<^verbatim>\<open>this.metrics\<close> as it stands when it is called.
\<close>

definition calculateConvergenceRate :: "OakEvolutionLoop \<Rightarrow> jsnum" where
  "calculateConvergenceRate s =
     (if length (metrics s) < 2 then Fin 0
      else (let current = metrics s ! (length (metrics s) - 1);
                previous = metrics s ! (length (metrics s) - 2)
            in js_abs (js_sub (m_bestFitness current) (m_bestFitness previous))))"

text \<open>The mean of no score is \<open>0 / 0\<close>, which is NaN.\<close>

definition mean :: "real list \<Rightarrow> jsnum" where
  "mean xs = (if xs = [] then NaN else Fin (sum_list xs / real (length xs)))"

definition calculatePopulationDiversity :: "real list \<Rightarrow> jsnum" where
  "calculatePopulationDiversity fitnessScores =
     (case mean fitnessScores of
        Fin m \<Rightarrow>
          Fin (sqrt (sum_list (map (\<lambda>score. (score - m)\<^sup>2) fitnessScores)
                     / real (length fitnessScores)))
      | _ \<Rightarrow> NaN)"

definition calculateMetrics :: "OakEvolutionLoop \<Rightarrow> real list \<Rightarrow> int \<Rightarrow> EvolutionMetrics" where
  "calculateMetrics s fitnessScores elapsed =
     \<lparr> m_generation = generation s,
       m_bestFitness = Math_max fitnessScores,
       averageFitness = mean fitnessScores,
       diversity = calculatePopulationDiversity fitnessScores,
       convergenceRate = calculateConvergenceRate s,
       runtime = elapsed \<rparr>"

text \<open>hasConverged: the mean rate of the last five entries against the threshold.\<close>

definition hasConverged :: "EvolutionConfig \<Rightarrow> OakEvolutionLoop \<Rightarrow> bool" where
  "hasConverged cfg s =
     (if length (metrics s) < 5 then False
      else (let recentMetrics = drop (length (metrics s) - 5) (metrics s);
                convergenceRates = map convergenceRate recentMetrics;
                avgConvergenceRate =
                  js_div (foldl js_add (Fin 0) convergenceRates) (length convergenceRates)
            in js_lt avgConvergenceRate (Fin (convergenceThreshold cfg))))"

subsection \<open>Selection\<close>

text \<open>
  The first chain of selectNextGeneration: the indices of the scores, sorted by descending
  fitness. \<^verbatim>\<open>Array.prototype.sort\<close> is stable, and so is \<open>sort_key\<close>.
\<close>

definition sortedIndices :: "real list \<Rightarrow> nat list" where
  "sortedIndices fitnessScores =
     map snd (sort_key (\<lambda>item. - fst item) (zip fitnessScores [0..<length fitnessScores]))"

text \<open>The elite loop: \<^verbatim>\<open>nextGeneration.push(population[sortedIndices[i]])\<close>.\<close>

definition eliteAgents :: "EvolutionConfig \<Rightarrow> agent list \<Rightarrow> real list \<Rightarrow> agent list" where
  "eliteAgents cfg newGeneration fitnessScores =
     map (\<lambda>i. agent_at newGeneration (int i))
       (take (min (eliteSize cfg) (length (sortedIndices fitnessScores)))
          (sortedIndices fitnessScores))"

text \<open>The sampling loop of tournamentSelection, for \<open>n\<close> passes.\<close>

fun tournament_entries ::
  "env \<Rightarrow> agent list \<Rightarrow> real list \<Rightarrow> nat \<Rightarrow> world \<Rightarrow> (agent \<times> real option) list \<times> world"
  where
  "tournament_entries E pop fitnessScores 0 w = ([], w)"
| "tournament_entries E pop fitnessScores (Suc n) w =
     (let (r, w1) = Math_random E w;
          randomIndex = \<lfloor>r * real (length pop)\<rfloor>;
          entry = (agent_at pop randomIndex, number_at fitnessScores randomIndex);
          (entries, w2) = tournament_entries E pop fitnessScores n w1
      in (entry # entries, w2))"

text \<open>
  The comparator \<^verbatim>\<open>(a, b) => b.fitness - a.fitness\<close> orders the entries by descending
  fitness. On an entry whose fitness is \<^verbatim>\<open>undefined\<close> it yields NaN, which the sort
  reads as a tie; such an entry only arises from an empty population (then all entries
  are of this kind and keep their order) or from a score array shorter than the
  population, which the loop never builds.
\<close>

definition tournament_key :: "agent \<times> real option \<Rightarrow> real" where
  "tournament_key entry = (case snd entry of Some f \<Rightarrow> - f | None \<Rightarrow> 0)"

text \<open>
  tournamentSelection. The tournament holds at least two entries, so
  \<^verbatim>\<open>tournament[0]\<close> exists.
\<close>

definition tournamentSelection ::
  "env \<Rightarrow> agent list \<Rightarrow> real list \<Rightarrow> world \<Rightarrow> agent \<times> world" where
  "tournamentSelection E pop fitnessScores w =
     (let tournamentSize = max 2 (nat \<lfloor>real (length pop) * (1 / 10)\<rfloor>);
          (tournament, w1) = tournament_entries E pop fitnessScores tournamentSize w
      in (fst (hd (sort_key tournament_key tournament)), w1))"

text \<open>\<^verbatim>\<open>while (nextGeneration.length < this.config.populationSize)\<close>.\<close>

function tournament_fill ::
  "EvolutionConfig \<Rightarrow> env \<Rightarrow> agent list \<Rightarrow> real list \<Rightarrow> agent list \<Rightarrow> world
     \<Rightarrow> agent list \<times> world" where
  "tournament_fill cfg E pop fitnessScores nextGeneration w =
     (if length nextGeneration < populationSize cfg
      then (let (selected, w1) = tournamentSelection E pop fitnessScores w
            in tournament_fill cfg E pop fitnessScores (nextGeneration @ [selected]) w1)
      else (nextGeneration, w))"
  by pat_completeness auto
termination
  by (relation "measure (\<lambda>(cfg, E, pop, fitnessScores, nextGeneration, w).
        populationSize cfg - length nextGeneration)") auto

definition selectNextGeneration ::
  "EvolutionConfig \<Rightarrow> env \<Rightarrow> agent list \<Rightarrow> real list \<Rightarrow> world \<Rightarrow> agent list \<times> world" where
  "selectNextGeneration cfg E pop fitnessScores w =
     tournament_fill cfg E pop fitnessScores (eliteAgents cfg pop fitnessScores) w"

subsection \<open>The generation loop\<close>

text \<open>
  One pass of the body of the while loop of run. The first component tells whether the
  pass left the loop through \<^verbatim>\<open>break\<close>. The caller's use of \<^verbatim>\<open>stop()\<close> is given
  by \<open>stops\<close>: \<open>stops g\<close> tells whether \<^verbatim>\<open>stop()\<close> is invoked while the pass with
  generation counter \<open>g\<close> is suspended at one of its awaits. The call writes \<open>isRunning\<close>,
  which the pass never reads, so it is applied at the end of the pass.
\<close>

definition generation_pass ::
  "EvolutionConfig \<Rightarrow> env \<Rightarrow> (nat \<Rightarrow> bool) \<Rightarrow> OakEvolutionLoop \<Rightarrow> world
     \<Rightarrow> bool \<times> OakEvolutionLoop \<times> world"
  where
  "generation_pass cfg E stops s w =
     (let startTime = clock E (tick w);
          (newGeneration, w1) = executeOakCycle cfg E (population s) w;
          (fitnessScores, w2) = evaluatePopulation cfg E newGeneration w1;
          (s1, w3) = updateBestAgent s newGeneration fitnessScores w2;
          generationMetrics =
            calculateMetrics s1 fitnessScores (int (clock E (tick w3)) - int startTime);
          s2 = s1\<lparr>metrics := metrics s1 @ [generationMetrics]\<rparr>;
          w4 = emit (GenerationComplete generationMetrics) w3;
          interrupt = (\<lambda>s'. if stops (generation s) then stop s' else s')
      in if hasConverged cfg s2 then (True, interrupt s2, w4)
         else (let (nextGeneration, w5) = selectNextGeneration cfg E newGeneration fitnessScores w4
               in (False,
                   interrupt (s2\<lparr>population := nextGeneration, generation := generation s2 + 1\<rparr>),
                   w5)))"

text \<open>A pass that does not break advances the generation counter, so the loop ends.\<close>

lemma generation_pass_generation:
  "generation_pass cfg E stops s w = (False, s', w') \<Longrightarrow> generation s' = Suc (generation s)"
  by (auto simp: generation_pass_def Let_def stop_def updateBestAgent_def
      split: prod.splits if_splits)

text \<open>
  \<^verbatim>\<open>while (this.isRunning && this.generation < this.config.generationLimit)\<close>.
\<close>

function run_loop ::
  "EvolutionConfig \<Rightarrow> env \<Rightarrow> (nat \<Rightarrow> bool) \<Rightarrow> OakEvolutionLoop \<Rightarrow> world
     \<Rightarrow> OakEvolutionLoop \<times> world" where
  "run_loop cfg E stops s w =
     (if isRunning s \<and> generation s < generationLimit cfg
      then (case generation_pass cfg E stops s w of
              (True, s', w') \<Rightarrow> (s', w')
            | (False, s', w') \<Rightarrow> run_loop cfg E stops s' w')
      else (s, w))"
  by pat_completeness auto
termination
  apply (relation "measure (\<lambda>(cfg, E, stops, s, w). generationLimit cfg - generation s)")
   apply simp
  apply (auto dest!: sym[of "(False, _, _)"] generation_pass_generation)
  done

text \<open>
  run: the value returned is \<^verbatim>\<open>this.bestAgent!\<close>, an assertion that only the type
  checker sees, so \<open>None\<close> (\<^verbatim>\<open>null\<close>) is returned as it is. No method called inside
  the try block lets an exception out, so the catch block is never entered; the finally
  block clears \<open>isRunning\<close>. The payload of the last event is shortened to the best agent,
  its fitness and the generation counter.
\<close>

definition run ::
  "EvolutionConfig \<Rightarrow> env \<Rightarrow> (nat \<Rightarrow> bool) \<Rightarrow> agent list \<Rightarrow> OakEvolutionLoop \<Rightarrow> world
     \<Rightarrow> agent option \<times> OakEvolutionLoop \<times> world" where
  "run cfg E stops initialPopulation s w =
     (let s1 = s\<lparr>isRunning := True, population := initialPopulation, generation := 0\<rparr>;
          w1 = emit EvolutionStarted w;
          (s2, w2) = run_loop cfg E stops s1 w1;
          w3 = emit (EvolutionComplete (bestAgent s2) (bestFitness s2) (generation s2)) w2
      in (bestAgent s2, s2\<lparr>isRunning := False\<rparr>, w3))"

subsection \<open>What a world has seen\<close>

text \<open>The evaluations recorded in a list of events, newest first.\<close>

fun evaluations_of :: "event list \<Rightarrow> (agent \<times> real) list" where
  "evaluations_of [] = []"
| "evaluations_of (Evaluated a f # es) = (a, f) # evaluations_of es"
| "evaluations_of (e # es) = evaluations_of es"

definition evaluations :: "world \<Rightarrow> (agent \<times> real) list" where
  "evaluations w = evaluations_of (events w)"

text \<open>\<^verbatim>\<open>a <= b\<close> on numbers.\<close>

definition js_le :: "jsnum \<Rightarrow> jsnum \<Rightarrow> bool" where
  "js_le a b = (js_lt a b \<or> (a = b \<and> a \<noteq> NaN))"

subsection \<open>Concrete inputs\<close>

text \<open>An agent is said to throw always when none of its calls ever resolves.\<close>

definition throws_always :: "env \<Rightarrow> agent \<Rightarrow> bool" where
  "throws_always E a = (case a of Undefined \<Rightarrow> True | Agent k \<Rightarrow> \<forall>t c. \<not> resolves E t k c)"

text \<open>
  What executeAgentOakCycle may put into the slot of agent \<open>a\<close>: \<open>a\<close> itself, or a member
  of the population that does not throw always.
\<close>

definition installs :: "env \<Rightarrow> agent list \<Rightarrow> agent \<Rightarrow> agent \<Rightarrow> bool" where
  "installs E pop a r = (r = a \<or> (r \<in> set pop \<and> \<not> throws_always E r))"

text \<open>The same, and an agent that throws always keeps its slot.\<close>

definition slot_ok :: "env \<Rightarrow> agent list \<Rightarrow> agent \<Rightarrow> agent \<Rightarrow> bool" where
  "slot_ok E pop a r = (installs E pop a r \<and> (if throws_always E a then r = a else True))"

text \<open>
  The order of the elite ranking, on (score, index) items and on indices: the higher
  score first, equal scores by ascending index.
\<close>

definition fitter :: "real \<times> nat \<Rightarrow> real \<times> nat \<Rightarrow> bool" where
  "fitter a b = (fst b < fst a \<or> (fst a = fst b \<and> snd a < snd b))"

definition ranked :: "real list \<Rightarrow> nat \<Rightarrow> nat \<Rightarrow> bool" where
  "ranked fs i j = (fs ! j < fs ! i \<or> (fs ! i = fs ! j \<and> i < j))"

text \<open>
  Step \<open>j\<close> of an evaluation that begins at count \<open>t\<close> passes when \<open>act\<close> resolves before
  the timer fires and the following \<open>learn\<close>, six draws later, resolves.
\<close>

definition step_passes :: "EvolutionConfig \<Rightarrow> env \<Rightarrow> nat \<Rightarrow> nat \<Rightarrow> bool" where
  "step_passes cfg E n t =
     (resolves_within (acts E t n) (timer_delay (evaluationTimeout cfg))
      \<and> resolves E (t + 7) n Learn)"

text \<open>
  The state of the best-agent tracking with respect to the evaluations a world has
  recorded: no score recorded exceeds the tracked fitness, and the tracked agent, when
  there is one, was given the tracked fitness in an evaluation.
\<close>

definition tracked :: "OakEvolutionLoop \<Rightarrow> world \<Rightarrow> bool" where
  "tracked s w =
     (list_all (\<lambda>p. js_le (Fin (snd p)) (bestFitness s)) (evaluations w)
      \<and> (case bestAgent s of
            None \<Rightarrow> bestFitness s = NegInfinity
          | Some a \<Rightarrow> (case bestFitness s of Fin f \<Rightarrow> (a, f) \<in> set (evaluations w) | _ \<Rightarrow> False)))"

text \<open>
  The configuration with the generation limit lowered to \<open>g + 1\<close>, where the pass with
  counter \<open>g\<close> is the last that a stopped run makes.
\<close>

definition stopped_limit :: "EvolutionConfig \<Rightarrow> nat \<Rightarrow> EvolutionConfig" where
  "stopped_limit cfg g = cfg\<lparr>generationLimit := min (generationLimit cfg) (Suc g)\<rparr>"

definition world0 :: world where
  "world0 = \<lparr>tick = 0, events = []\<rparr>"

text \<open>Every draw is zero, every call resolves, \<open>act\<close> never settles.\<close>

definition env_still :: env where
  "env_still = \<lparr> rnd = (\<lambda>t. 0), resolves = (\<lambda>t k c. True), acts = (\<lambda>t k. Never),
      clock = (\<lambda>t. 0) \<rparr>"

text \<open>As before, but every call on agent 0 throws.\<close>

definition env_first_throws :: env where
  "env_first_throws = \<lparr> rnd = (\<lambda>t. 0), resolves = (\<lambda>t k c. k \<noteq> 0), acts = (\<lambda>t k. Never),
      clock = (\<lambda>t. 0) \<rparr>"

text \<open>
  A timeout of zero, and an agent whose \<open>act\<close> resolves one millisecond after the timer
  is set.
\<close>

definition cfg_instant :: EvolutionConfig where
  "cfg_instant = default_config\<lparr>evaluationTimeout := 0\<rparr>"

definition env_tardy :: env where
  "env_tardy = \<lparr> rnd = (\<lambda>t. 0), resolves = (\<lambda>t k c. True),
      acts = (\<lambda>t k. Resolves 1 \<lparr>atype = ''adapt'', parameters = []\<rparr>), clock = (\<lambda>t. 0) \<rparr>"

text \<open>A timeout of one millisecond, and an agent whose \<open>act\<close> takes five.\<close>

definition cfg_hasty :: EvolutionConfig where
  "cfg_hasty = default_config\<lparr>evaluationTimeout := 1\<rparr>"

definition env_slow :: env where
  "env_slow = \<lparr> rnd = (\<lambda>t. 0), resolves = (\<lambda>t k c. True),
      acts = (\<lambda>t k. Resolves 5 \<lparr>atype = ''adapt'', parameters = []\<rparr>), clock = (\<lambda>t. 0) \<rparr>"

text \<open>A population of one, for one generation and for ten.\<close>

definition cfg_one :: EvolutionConfig where
  "cfg_one = default_config\<lparr>populationSize := 1, eliteSize := 1, generationLimit := 1\<rparr>"

definition cfg_ten :: EvolutionConfig where
  "cfg_ten = default_config\<lparr>populationSize := 1, eliteSize := 1, generationLimit := 10\<rparr>"

text \<open>The loop object on entry to the loop of run, for the population of agent 0.\<close>

definition loop_started :: OakEvolutionLoop where
  "loop_started = new_loop\<lparr>isRunning := True, population := [Agent 0]\<rparr>"

text \<open>The metrics entry of a first generation whose only score is the penalty.\<close>

definition metrics_penalty :: EvolutionMetrics where
  "metrics_penalty = \<lparr> m_generation = 0, m_bestFitness = Fin (- 1), averageFitness = Fin (- 1),
      diversity = Fin 0, convergenceRate = Fin 0, runtime = 0 \<rparr>"

definition cfg_zero :: EvolutionConfig where
  "cfg_zero = default_config\<lparr>generationLimit := 0\<rparr>"

text \<open>Mutation and crossover with probability one.\<close>

definition cfg_always :: EvolutionConfig where
  "cfg_always = default_config\<lparr>mutationRate := 1, crossoverRate := 1\<rparr>"

definition cfg_pair :: EvolutionConfig where
  "cfg_pair = default_config\<lparr>populationSize := 2, eliteSize := 1\<rparr>"

text \<open>The entry a first generation with best fitness 1 leaves in the metrics.\<close>

definition metrics_gen0 :: EvolutionMetrics where
  "metrics_gen0 = \<lparr> m_generation = 0, m_bestFitness = Fin 1, averageFitness = Fin 1,
      diversity = Fin 0, convergenceRate = Fin 0, runtime = 0 \<rparr>"

section \<open>Properties\<close>

subsection \<open>A generation limit of zero\<close>

text \<open>
  C9. With \<open>generationLimit = 0\<close> the loop body never runs: run on a fresh loop object
  returns \<^verbatim>\<open>null\<close>, and in general it returns the best agent the object held before
  the call, leaves the metrics as they were and lets the world see nothing but the two
  events around the loop.
\<close>

theorem run_generationLimit_zero:
  assumes "generationLimit cfg = 0"
  shows "fst (run cfg E stops initialPopulation new_loop w) = None
       \<and> run cfg E stops initialPopulation s w
           = (bestAgent s,
              s\<lparr>isRunning := False, population := initialPopulation, generation := 0\<rparr>,
              emit (EvolutionComplete (bestAgent s) (bestFitness s) 0) (emit EvolutionStarted w))"
  using assms by (simp add: run_def new_loop_def Let_def)

theorem run_generationLimit_zero_witness:
  "generationLimit cfg_zero = 0
   \<and> fst (run cfg_zero env_still (\<lambda>g. False) [Agent 0] new_loop world0) = None
   \<and> events (snd (snd (run cfg_zero env_still (\<lambda>g. False) [Agent 0] new_loop world0)))
       = [EvolutionComplete None NegInfinity 0, EvolutionStarted]"
proof -
  have h: "generationLimit cfg_zero = 0" by (simp add: cfg_zero_def)
  from run_generationLimit_zero[OF h, of env_still "\<lambda>g. False" "[Agent 0]" world0 new_loop] h
  show ?thesis by (simp add: emit_def world0_def new_loop_def)
qed

subsection \<open>The size of the next generation\<close>

lemma tournament_fill_length:
  "length nextGeneration \<le> populationSize cfg \<Longrightarrow>
   length (fst (tournament_fill cfg E pop fs nextGeneration w)) = populationSize cfg"
proof (induction cfg E pop fs nextGeneration w rule: tournament_fill.induct)
  case (1 cfg E pop fs nextGeneration w)
  show ?case
  proof (cases "length nextGeneration < populationSize cfg")
    case True
    then show ?thesis
      using "1.IH"[OF True refl]
      by (subst tournament_fill.simps) (simp add: Let_def split: prod.splits)
  next
    case False
    with "1.prems" show ?thesis by (subst tournament_fill.simps) simp
  qed
qed

lemma length_sortedIndices [simp]: "length (sortedIndices fs) = length fs"
  by (simp add: sortedIndices_def)

lemma length_eliteAgents:
  "length (eliteAgents cfg pop fs) = min (eliteSize cfg) (length fs)"
  by (simp add: eliteAgents_def)

lemma selectNextGeneration_fills:
  "eliteSize cfg \<le> populationSize cfg \<Longrightarrow>
   length (fst (selectNextGeneration cfg E pop fitnessScores w)) = populationSize cfg"
  unfolding selectNextGeneration_def
  by (intro tournament_fill_length) (simp add: length_eliteAgents)

lemma generation_pass_population:
  assumes "eliteSize cfg \<le> populationSize cfg"
    and "generation_pass cfg E stops s w = (False, s', w')"
  shows "length (population s') = populationSize cfg"
  using assms(2) selectNextGeneration_fills[OF assms(1)]
  by (auto simp: generation_pass_def Let_def stop_def split_beta split: if_splits)

text \<open>
  C4. When \<open>eliteSize \<le> populationSize\<close>, the array that selectNextGeneration returns has
  exactly \<open>populationSize\<close> slots, whatever the evaluated population, its scores and the
  draws are; and a pass of the loop that goes on to a next generation hands it a
  population of exactly \<open>populationSize\<close> slots.
\<close>

theorem selectNextGeneration_length:
  assumes "eliteSize cfg \<le> populationSize cfg"
  shows "length (fst (selectNextGeneration cfg E pop fitnessScores w)) = populationSize cfg
   \<and> (generation_pass cfg E stops s w0 = (False, s', w')
        \<longrightarrow> length (population s') = populationSize cfg)"
  using selectNextGeneration_fills[OF assms] generation_pass_population[OF assms]
  by blast

theorem selectNextGeneration_length_witness:
  "eliteSize cfg_pair \<le> populationSize cfg_pair
   \<and> length (fst (selectNextGeneration cfg_pair env_still [Agent 0, Agent 1, Agent 2]
        [1, 3, 2] world0)) = 2"
proof -
  have h: "eliteSize cfg_pair \<le> populationSize cfg_pair"
    by (simp add: cfg_pair_def default_config_def)
  from selectNextGeneration_length[OF h, THEN conjunct1,
      of env_still "[Agent 0, Agent 1, Agent 2]" "[1, 3, 2]" world0] h
  show ?thesis by (simp add: cfg_pair_def)
qed

subsection \<open>The convergence rate of a generation\<close>

text \<open>
  C3. The claim is that the entry of generation \<open>g\<close> records the absolute difference of the
  best fitness of \<open>g\<close> and of \<open>g - 1\<close>. calculateMetrics calls calculateConvergenceRate before
  the entry of the current generation is pushed, so the rate is taken from the entries
  already in \<^verbatim>\<open>this.metrics\<close>. In the second generation of a run whose first generation
  had best fitness 1 and whose second has best fitness 3, the entry records 0, where the
  claim asks for 2.
\<close>

theorem convergenceRate_second_generation:
  "convergenceRate
     (calculateMetrics (new_loop\<lparr>generation := 1, metrics := [metrics_gen0]\<rparr>) [3] 0) = Fin 0
   \<and> js_abs (js_sub (Math_max [3]) (m_bestFitness metrics_gen0)) = Fin 2"
  by (simp add: calculateMetrics_def calculateConvergenceRate_def new_loop_def
      metrics_gen0_def js_sub_def)

subsection \<open>A throw in the Oak cycle\<close>

lemma await_steps_first_throw:
  "i < length cs \<Longrightarrow> \<not> resolves E (tick w + i) k (cs ! i) \<Longrightarrow>
   (\<And>j. j < i \<Longrightarrow> resolves E (tick w + j) k (cs ! j)) \<Longrightarrow>
   await_steps E (Agent k) cs w
     = (False, \<lparr>tick = tick w + Suc i,
                events = rev (map (Call (Agent k)) (take (Suc i) cs)) @ events w\<rparr>)"
proof (induction cs arbitrary: i w)
  case Nil
  then show ?case by simp
next
  case (Cons c cs)
  show ?case
  proof (cases i)
    case 0
    with Cons.prems show ?thesis by (simp add: invoke_def)
  next
    case (Suc i')
    let ?w1 = "\<lparr>tick = Suc (tick w), events = Call (Agent k) c # events w\<rparr>"
    have ok: "resolves E (tick w) k c" using Cons.prems(3)[of 0] Suc by simp
    have "await_steps E (Agent k) cs ?w1
       = (False, \<lparr>tick = tick ?w1 + Suc i',
                events = rev (map (Call (Agent k)) (take (Suc i') cs)) @ events ?w1\<rparr>)"
    proof (rule Cons.IH)
      show "i' < length cs" using Cons.prems(1) Suc by simp
      show "\<not> resolves E (tick ?w1 + i') k (cs ! i')" using Cons.prems(2) Suc by simp
      show "resolves E (tick ?w1 + j) k (cs ! j)" if "j < i'" for j
        using Cons.prems(3)[of "Suc j"] that Suc by simp
    qed
    then show ?thesis using ok Suc by (simp add: invoke_def)
  qed
qed

lemma applyEvolution_installs_other:
  "fst (applyEvolution cfg_always env_first_throws [Agent 0, Agent 1] (Agent 0) w) = Agent 1"
  by (simp add: applyEvolution_def cfg_always_def env_first_throws_def default_config_def
      Math_random_def mutateAgent_def generateMutationExperiences_def mutationExperience_def
      learn_def invoke_def selectRandomAgent_def agent_at_def crossoverAgents_def
      generateCrossoverExperiences_def crossoverExperience_def Let_def numeral_2_eq_2)

text \<open>
  C2, as amended. When step \<open>i\<close> of the eight Oak steps of an agent is the first to throw,
  executeAgentOakCycle returns that agent, and the world has seen the \<open>i + 1\<close> calls up to
  the throw and nothing else: the catch block returns before applyEvolution, so no
  number is drawn for mutation or crossover and the agent's \<open>learn\<close> is not called.
\<close>

theorem executeAgentOakCycle_throw:
  assumes "i < length oak_steps"
    and "\<not> resolves E (tick w + i) k (oak_steps ! i)"
    and "\<forall>j<i. resolves E (tick w + j) k (oak_steps ! j)"
  shows "executeAgentOakCycle cfg E pop (Agent k) w
     = (Agent k, \<lparr>tick = tick w + Suc i,
                   events = rev (map (Call (Agent k)) (take (Suc i) oak_steps)) @ events w\<rparr>)"
  using await_steps_first_throw[of i oak_steps E w k] assms
  by (simp add: executeAgentOakCycle_def)

theorem executeAgentOakCycle_throw_witness:
  "executeAgentOakCycle cfg_always env_first_throws [Agent 0, Agent 1] (Agent 0) world0
     = (Agent 0, \<lparr>tick = 1, events = [Call (Agent 0) LearnPoliciesAndValues]\<rparr>)"
  using executeAgentOakCycle_throw[of 0 env_first_throws world0 0 cfg_always "[Agent 0, Agent 1]"]
  by (simp add: oak_steps_def env_first_throws_def world0_def)

text \<open>
  The claim as stated fails: with both rates at one, the first Oak step of agent 0 throws
  and the cycle returns agent 0, while applyEvolution on agent 0 in the world after the
  throw would have returned agent 1.
\<close>

theorem executeAgentOakCycle_throw_counterexample:
  "\<not> resolves env_first_throws (tick world0) 0 (oak_steps ! 0)
   \<and> fst (executeAgentOakCycle cfg_always env_first_throws [Agent 0, Agent 1] (Agent 0) world0)
       = Agent 0
   \<and> fst (applyEvolution cfg_always env_first_throws [Agent 0, Agent 1] (Agent 0)
            (snd (await_steps env_first_throws (Agent 0) oak_steps world0))) = Agent 1"
proof -
  have "\<not> resolves env_first_throws (tick world0) 0 (oak_steps ! 0)"
    by (simp add: env_first_throws_def)
  moreover have "fst (executeAgentOakCycle cfg_always env_first_throws [Agent 0, Agent 1]
      (Agent 0) world0) = Agent 0"
    by (simp add: executeAgentOakCycle_def oak_steps_def invoke_def env_first_throws_def)
  ultimately show ?thesis
    by (simp only: applyEvolution_installs_other simp_thms)
qed

subsection \<open>Which agent a slot holds after the Oak cycle\<close>

lemma mutateAgent_fst: "fst (mutateAgent E a w) = a"
  by (simp add: mutateAgent_def Let_def split: prod.splits)

lemma learn_each_throws:
  "throws_always E a \<Longrightarrow> xs \<noteq> [] \<Longrightarrow> fst (learn_each E a xs w) = False"
  by (cases xs; cases a) (simp_all add: throws_always_def learn_def invoke_def)

lemma crossoverExperiences_nonempty:
  "fst (crossoverExperiences E i (Suc n) w) \<noteq> []"
  by (simp add: Let_def split: prod.splits)

lemma generateCrossoverExperiences_nonempty:
  "fst (generateCrossoverExperiences E w) \<noteq> []"
  using crossoverExperiences_nonempty
  by (simp add: generateCrossoverExperiences_def Let_def split: prod.splits del: crossoverExperiences.simps)

lemma crossoverAgents_result:
  "fst (crossoverAgents E p1 p2 w) = p1
   \<or> (fst (crossoverAgents E p1 p2 w) = p2 \<and> \<not> throws_always E p2)"
proof -
  obtain r w1 where r: "Math_random E w = (r, w1)" by (cases "Math_random E w")
  obtain xs w2 where xs: "generateCrossoverExperiences E w1 = (xs, w2)"
    by (cases "generateCrossoverExperiences E w1")
  have ne: "xs \<noteq> []" using generateCrossoverExperiences_nonempty[of E w1] xs by simp
  let ?sel = "if r > 1 / 2 then p1 else p2"
  obtain ok w3 where ok: "learn_each E ?sel xs w2 = (ok, w3)"
    by (cases "learn_each E ?sel xs w2")
  have res: "fst (crossoverAgents E p1 p2 w) = (if ok then ?sel else p1)"
    using r xs ok by (simp add: crossoverAgents_def Let_def)
  show ?thesis
  proof (cases "ok \<and> \<not> r > 1 / 2")
    case True
    then have "\<not> throws_always E p2"
      using learn_each_throws[of E p2 xs w2] ne ok by auto
    with True res show ?thesis by simp
  next
    case False
    with res show ?thesis by auto
  qed
qed

lemma agent_at_cases: "agent_at xs i \<in> set xs \<or> agent_at xs i = Undefined"
  by (auto simp: agent_at_def nat_less_iff)

lemma selectRandomAgent_result:
  "fst (selectRandomAgent E pop a w) \<in> set pop \<or> fst (selectRandomAgent E pop a w) = Undefined"
proof -
  have "agent_at (filter (\<lambda>b. b \<noteq> a) pop) i \<in> set pop
      \<or> agent_at (filter (\<lambda>b. b \<noteq> a) pop) i = Undefined" for i
    using agent_at_cases[of "filter (\<lambda>b. b \<noteq> a) pop" i] by auto
  then show ?thesis
    by (simp add: selectRandomAgent_def Let_def split: prod.splits)
qed

lemma throws_always_Undefined [simp]: "throws_always E Undefined"
  by (simp add: throws_always_def)

lemma applyEvolution_result:
  "installs E pop a (fst (applyEvolution cfg E pop a w))"
proof -
  obtain r1 w1 where r1: "Math_random E w = (r1, w1)" by (cases "Math_random E w")
  let ?m = "if r1 < mutationRate cfg then mutateAgent E a w1 else (a, w1)"
  obtain ev w2 where ev: "?m = (ev, w2)" by (cases ?m)
  have eva: "ev = a" using ev mutateAgent_fst[of E a w1] by (auto split: if_splits)
  obtain r2 w3 where r2: "Math_random E w2 = (r2, w3)" by (cases "Math_random E w2")
  obtain other w4 where other: "selectRandomAgent E pop a w3 = (other, w4)"
    by (cases "selectRandomAgent E pop a w3")
  have o: "other \<in> set pop \<or> other = Undefined"
    using selectRandomAgent_result[of E pop a w3] other by simp
  have res: "fst (applyEvolution cfg E pop a w)
      = (if r2 < crossoverRate cfg \<and> length pop > 1 then fst (crossoverAgents E a other w4) else a)"
    using r1 ev r2 other eva by (simp add: applyEvolution_def Let_def)
  show ?thesis
    using res crossoverAgents_result[of E a other w4] o
    by (auto simp: installs_def)
qed

lemma executeAgentOakCycle_result:
  "installs E pop a (fst (executeAgentOakCycle cfg E pop a w))"
  using applyEvolution_result[of E pop a cfg]
  by (auto simp: executeAgentOakCycle_def Let_def installs_def split: prod.splits)

lemma await_steps_throws:
  "throws_always E a \<Longrightarrow> cs \<noteq> [] \<Longrightarrow> fst (await_steps E a cs w) = False"
  by (cases cs; cases a) (simp_all add: throws_always_def invoke_def)

lemma executeAgentOakCycle_throws:
  "throws_always E a \<Longrightarrow> fst (executeAgentOakCycle cfg E pop a w) = a"
  using await_steps_throws[of E a oak_steps w]
  by (auto simp: executeAgentOakCycle_def Let_def oak_steps_def split: prod.splits)

lemma oak_batch_slots:
  "list_all2 (slot_ok E pop) batch (fst (oak_batch cfg E pop batch w))"
proof (induction batch arbitrary: w)
  case Nil
  show ?case by simp
next
  case (Cons a batch)
  obtain r w1 where r: "executeAgentOakCycle cfg E pop a w = (r, w1)"
    by (cases "executeAgentOakCycle cfg E pop a w")
  have "slot_ok E pop a r"
    using executeAgentOakCycle_result[of E pop a cfg w] executeAgentOakCycle_throws[of E a cfg pop w] r
    by (simp add: slot_ok_def)
  then show ?case using Cons.IH[of w1] r by (auto simp: Let_def split: prod.splits)
qed

lemma oak_batches_slots:
  "\<exists>rs. fst (oak_batches cfg E pop i acc w) = acc @ rs \<and> list_all2 (slot_ok E pop) (drop i pop) rs"
proof (induction cfg E pop i acc w rule: oak_batches.induct)
  case (1 cfg E pop i acc w)
  show ?case
  proof (cases "i < length pop")
    case False
    then show ?thesis by (subst oak_batches.simps) simp
  next
    case True
    let ?bs = "min 10 (length pop)"
    let ?batch = "take ?bs (drop i pop)"
    obtain res w1 where res: "oak_batch cfg E pop ?batch w = (res, w1)"
      by (cases "oak_batch cfg E pop ?batch w")
    have b: "list_all2 (slot_ok E pop) ?batch res"
      using oak_batch_slots[of E pop ?batch cfg w] res by simp
    from "1.IH"[OF refl True refl res[symmetric]]
    obtain rs where rs: "fst (oak_batches cfg E pop (i + ?bs) (acc @ res) w1) = (acc @ res) @ rs"
      and rs2: "list_all2 (slot_ok E pop) (drop (i + ?bs) pop) rs" by blast
    have "drop (i + ?bs) pop = drop ?bs (drop i pop)"
      by (simp add: add.commute)
    then have split: "drop i pop = ?batch @ drop (i + ?bs) pop"
      by (simp only: append_take_drop_id)
    have "list_all2 (slot_ok E pop) (?batch @ drop (i + ?bs) pop) (res @ rs)"
      using b rs2 by (rule list_all2_appendI)
    then have "list_all2 (slot_ok E pop) (drop i pop) (res @ rs)"
      using split by simp
    moreover have "fst (oak_batches cfg E pop i acc w) = acc @ (res @ rs)"
      using True res rs by (subst oak_batches.simps) (simp add: Let_def)
    ultimately show ?thesis by blast
  qed
qed

lemma executeOakCycle_slots:
  "list_all2 (slot_ok E pop) pop (fst (executeOakCycle cfg E pop w))"
  using oak_batches_slots[of cfg E pop 0 "[]" w] by (auto simp: executeOakCycle_def)

lemma oak_cycle_swaps:
  "fst (executeOakCycle cfg_always env_still [Agent 1, Agent 2] world0) = [Agent 2, Agent 1]"
  by (simp add: executeOakCycle_def oak_batches.simps executeAgentOakCycle_def oak_steps_def
      applyEvolution_def cfg_always_def env_still_def default_config_def world0_def
      Math_random_def mutateAgent_def generateMutationExperiences_def mutationExperience_def
      learn_def invoke_def selectRandomAgent_def agent_at_def crossoverAgents_def
      generateCrossoverExperiences_def crossoverExperience_def Let_def numeral_2_eq_2)

lemma oak_cycle_keeps_thrower:
  "fst (executeOakCycle cfg_always env_first_throws [Agent 0, Agent 1] world0) = [Agent 0, Agent 1]"
  by (simp add: executeOakCycle_def oak_batches.simps executeAgentOakCycle_def oak_steps_def
      applyEvolution_def cfg_always_def env_first_throws_def default_config_def world0_def
      Math_random_def mutateAgent_def generateMutationExperiences_def mutationExperience_def
      learn_def invoke_def selectRandomAgent_def agent_at_def crossoverAgents_def
      generateCrossoverExperiences_def crossoverExperience_def Let_def numeral_2_eq_2)

lemma slot_ok_member: "slot_ok E pop a r \<Longrightarrow> a \<in> set pop \<Longrightarrow> r \<in> set pop"
  by (auto simp: slot_ok_def installs_def)

lemma set_executeOakCycle: "set (fst (executeOakCycle cfg E pop w)) \<subseteq> set pop"
proof
  fix r assume "r \<in> set (fst (executeOakCycle cfg E pop w))"
  then obtain i where i: "i < length (fst (executeOakCycle cfg E pop w))"
    and r: "r = fst (executeOakCycle cfg E pop w) ! i" by (auto simp: in_set_conv_nth)
  have l: "list_all2 (slot_ok E pop) pop (fst (executeOakCycle cfg E pop w))"
    by (rule executeOakCycle_slots)
  then have "i < length pop" using i by (simp add: list_all2_lengthD)
  moreover from this l have "slot_ok E pop (pop ! i) (fst (executeOakCycle cfg E pop w) ! i)"
    by (simp add: list_all2_nthD)
  ultimately show "r \<in> set pop" using r slot_ok_member by auto
qed

text \<open>
  C10. The Oak cycle allocates no agent: mutateAgent returns the agent it was given,
  crossoverAgents returns one of its two parents, and the array that one Oak cycle
  returns has the length of the population before the cycle and holds members of that
  population only. A slot may still change its holder: with both rates at one, all calls
  resolving and all draws zero, the cycle over agents 1 and 2 returns them swapped.
\<close>

theorem oak_cycle_allocates_no_agent:
  "fst (mutateAgent E a w) = a
   \<and> (fst (crossoverAgents E parent1 parent2 w) = parent1
      \<or> fst (crossoverAgents E parent1 parent2 w) = parent2)
   \<and> length (fst (executeOakCycle cfg E pop w)) = length pop
   \<and> set (fst (executeOakCycle cfg E pop w)) \<subseteq> set pop
   \<and> fst (executeOakCycle cfg_always env_still [Agent 1, Agent 2] world0) = [Agent 2, Agent 1]"
  using crossoverAgents_result[of E parent1 parent2 w]
    list_all2_lengthD[OF executeOakCycle_slots[of E pop cfg w]]
    set_executeOakCycle[of cfg E pop w] oak_cycle_swaps mutateAgent_fst[of E a w]
  by auto

theorem oak_cycle_allocates_no_agent_witness:
  "fst (mutateAgent env_first_throws (Agent 1) world0) = Agent 1
   \<and> set (fst (executeOakCycle cfg_always env_first_throws [Agent 0, Agent 1] world0))
       \<subseteq> {Agent 0, Agent 1}
   \<and> length (fst (executeOakCycle cfg_always env_first_throws [Agent 0, Agent 1] world0)) = 2"
  using oak_cycle_allocates_no_agent[where E = env_first_throws and a = "Agent 1"
      and w = world0 and cfg = cfg_always and pop = "[Agent 0, Agent 1]"]
  by simp

lemma count_list_all2:
  "list_all2 (\<lambda>x y. (y = a) = (x = a)) xs ys \<Longrightarrow> count_list ys a = count_list xs a"
  by (induction xs ys rule: list_all2_induct) auto

lemma slot_ok_thrower: "throws_always E a \<Longrightarrow> slot_ok E pop b r \<Longrightarrow> (r = a) = (b = a)"
  by (auto simp: slot_ok_def installs_def split: if_splits)

text \<open>
  C7. An agent whose every capability call throws holds, after one Oak cycle, exactly
  the slots it held before: the array keeps its length, slot \<open>i\<close> holds the agent after the
  cycle if and only if it did before, and so the agent occurs as often as before (once,
  when it stood in one slot). Its own cycle returns it, and a crossover that takes it as
  second parent returns the first parent.
\<close>

theorem thrower_keeps_its_slots:
  assumes "throws_always E a"
  shows "length (fst (executeOakCycle cfg E pop w)) = length pop
   \<and> (\<forall>i<length pop. (fst (executeOakCycle cfg E pop w) ! i = a) = (pop ! i = a))
   \<and> count_list (fst (executeOakCycle cfg E pop w)) a = count_list pop a
   \<and> fst (executeAgentOakCycle cfg E pop a w) = a
   \<and> fst (crossoverAgents E parent1 a w) = parent1"
proof -
  have l: "list_all2 (slot_ok E pop) pop (fst (executeOakCycle cfg E pop w))"
    by (rule executeOakCycle_slots)
  then have l2: "list_all2 (\<lambda>x y. (y = a) = (x = a)) pop (fst (executeOakCycle cfg E pop w))"
    by (rule list_all2_mono) (use assms slot_ok_thrower in blast)
  have "length (fst (executeOakCycle cfg E pop w)) = length pop"
    using l by (simp add: list_all2_lengthD)
  moreover have "\<forall>i<length pop. (fst (executeOakCycle cfg E pop w) ! i = a) = (pop ! i = a)"
    using l2 by (simp add: list_all2_conv_all_nth)
  moreover have "count_list (fst (executeOakCycle cfg E pop w)) a = count_list pop a"
    using l2 by (rule count_list_all2)
  moreover have "fst (executeAgentOakCycle cfg E pop a w) = a"
    using assms by (rule executeAgentOakCycle_throws)
  moreover have "fst (crossoverAgents E parent1 a w) = parent1"
    using crossoverAgents_result[of E parent1 a w] assms by auto
  ultimately show ?thesis by blast
qed

theorem thrower_keeps_its_slots_witness:
  "throws_always env_first_throws (Agent 0)
   \<and> fst (executeOakCycle cfg_always env_first_throws [Agent 0, Agent 1] world0)
       = [Agent 0, Agent 1]
   \<and> count_list (fst (executeOakCycle cfg_always env_first_throws [Agent 0, Agent 1] world0))
       (Agent 0) = 1"
proof -
  have h: "throws_always env_first_throws (Agent 0)"
    by (simp add: throws_always_def env_first_throws_def)
  from thrower_keeps_its_slots[OF h, of cfg_always "[Agent 0, Agent 1]" world0] h
    oak_cycle_keeps_thrower
  show ?thesis by simp
qed

subsection \<open>Elitism\<close>

lemma insort_key_fitter:
  "sorted_wrt fitter ys \<Longrightarrow> \<forall>y\<in>set ys. snd x < snd y \<Longrightarrow>
   sorted_wrt fitter (insort_key (\<lambda>item. - fst item) x ys)"
proof (induction ys)
  case Nil
  then show ?case by simp
next
  case (Cons y ys)
  show ?case
  proof (cases "fst y \<le> fst x")
    case True
    have "fitter x y" using True Cons.prems(2) by (auto simp: fitter_def)
    moreover have "fitter x z" if "z \<in> set ys" for z
    proof -
      have "fitter y z" using Cons.prems(1) that by simp
      then show ?thesis using True Cons.prems(2) that by (auto simp: fitter_def)
    qed
    ultimately show ?thesis using True Cons.prems(1) by simp
  next
    case False
    have "fitter y x" using False by (auto simp: fitter_def)
    moreover have "sorted_wrt fitter (insort_key (\<lambda>item. - fst item) x ys)"
      using Cons by simp
    ultimately show ?thesis using False Cons.prems(1) by (auto simp: set_insort_key)
  qed
qed

lemma sort_key_fitter:
  "sorted_wrt (\<lambda>a b. snd a < snd b) xs \<Longrightarrow>
   sorted_wrt fitter (sort_key (\<lambda>item. - fst item) xs)"
proof (induction xs)
  case Nil
  then show ?case by simp
next
  case (Cons x xs)
  then show ?case by (simp add: insort_key_fitter)
qed

lemma sorted_wrt_snd_zip_upt:
  "sorted_wrt (\<lambda>a b. snd a < snd b) (zip fs [i..<i + length fs])"
proof (induction fs arbitrary: i)
  case Nil
  then show ?case by simp
next
  case (Cons f fs)
  have "[i..<i + length (f # fs)] = i # [Suc i..<Suc i + length fs]"
    by (subst upt_rec) simp
  moreover have "\<forall>p \<in> set (zip fs [Suc i..<Suc i + length fs]). i < snd p"
    by (auto dest!: set_zip_rightD)
  ultimately show ?case using Cons.IH[of "Suc i"] by simp
qed

lemma zip_upt_fst: "p \<in> set (zip fs [0..<length fs]) \<Longrightarrow> fst p = fs ! snd p \<and> snd p < length fs"
  by (auto simp: set_zip)

lemma sortedIndices_ranked: "sorted_wrt (ranked fs) (sortedIndices fs)"
proof -
  let ?ys = "sort_key (\<lambda>item. - fst item) (zip fs [0..<length fs])"
  have "sorted_wrt fitter ?ys"
    using sorted_wrt_snd_zip_upt[of fs 0] by (intro sort_key_fitter) simp
  moreover have "\<forall>p \<in> set ?ys. fst p = fs ! snd p"
  proof
    fix p assume "p \<in> set ?ys"
    then show "fst p = fs ! snd p" using zip_upt_fst[of p fs] by simp
  qed
  ultimately have "sorted_wrt (\<lambda>a b. ranked fs (snd a) (snd b)) ?ys"
  proof (elim sorted_wrt_mono_rel[rotated])
    fix a b
    assume F: "\<forall>p \<in> set ?ys. fst p = fs ! snd p" and "a \<in> set ?ys" "b \<in> set ?ys" "fitter a b"
    then have "fst a = fs ! snd a" "fst b = fs ! snd b" by auto
    with \<open>fitter a b\<close> show "ranked fs (snd a) (snd b)" by (simp add: fitter_def ranked_def)
  qed
  then show ?thesis by (simp add: sortedIndices_def sorted_wrt_map)
qed

lemma distinct_sortedIndices: "distinct (sortedIndices fs)"
proof -
  let ?xs = "zip fs [0..<length fs]"
  have "distinct (map snd ?xs)" by simp
  then have "distinct ?xs \<and> inj_on snd (set ?xs)" by (simp only: distinct_map)
  then have "distinct (map snd (sort_key (\<lambda>item. - fst item) ?xs))"
    by (simp add: distinct_map)
  then show ?thesis by (simp add: sortedIndices_def)
qed

lemma set_sortedIndices: "set (sortedIndices fs) = {0..<length fs}"
proof -
  have "map snd (zip fs [0..<length fs]) = [0..<length fs]" by simp
  then have "snd ` set (zip fs [0..<length fs]) = set [0..<length fs]"
    by (simp only: set_map[symmetric])
  then show ?thesis by (simp add: sortedIndices_def)
qed

lemma tournament_fill_prefix:
  "\<exists>rest. fst (tournament_fill cfg E pop fs nextGeneration w) = nextGeneration @ rest"
proof (induction cfg E pop fs nextGeneration w rule: tournament_fill.induct)
  case (1 cfg E pop fs nextGeneration w)
  show ?case
  proof (cases "length nextGeneration < populationSize cfg")
    case True
    obtain sel w1 where sel: "tournamentSelection E pop fs w = (sel, w1)"
      by (cases "tournamentSelection E pop fs w")
    from "1.IH"[OF True sel[symmetric]] obtain rest where
      "fst (tournament_fill cfg E pop fs (nextGeneration @ [sel]) w1) = (nextGeneration @ [sel]) @ rest"
      by blast
    then show ?thesis using True sel by (subst tournament_fill.simps) simp
  next
    case False
    then show ?thesis by (subst tournament_fill.simps) simp
  qed
qed

lemma eliteAgents_nth:
  assumes "length pop = length fs"
  shows "eliteAgents cfg pop fs = map (\<lambda>i. pop ! i) (take (eliteSize cfg) (sortedIndices fs))"
proof -
  have "agent_at pop (int i) = pop ! i" if "i \<in> set (take (eliteSize cfg) (sortedIndices fs))" for i
  proof -
    have "i \<in> set (sortedIndices fs)" using that by (rule in_set_takeD)
    then show ?thesis using assms by (simp add: set_sortedIndices agent_at_def)
  qed
  moreover have "take (min (eliteSize cfg) (length (sortedIndices fs))) (sortedIndices fs)
      = take (eliteSize cfg) (sortedIndices fs)"
    by (simp add: min_def)
  ultimately show ?thesis by (simp add: eliteAgents_def)
qed

text \<open>
  C5, as amended. For an evaluated population with one score per agent, the elite loop
  copies \<open>min eliteSize n\<close> agents, where \<open>n\<close> is the number of agents evaluated in this
  generation (so \<open>min eliteSize populationSize\<close> whenever that generation has
  \<open>populationSize\<close> agents). They are the agents at the first \<open>eliteSize\<close> indices of the
  ranking, which lists every index once, a higher score before a lower one and equal
  scores by ascending index; they stand first in the next generation, whatever the
  environment and the draws of the tournaments are.
\<close>

theorem elite_selection:
  assumes "length pop = length fitnessScores"
  shows "length (eliteAgents cfg pop fitnessScores) = min (eliteSize cfg) (length pop)
   \<and> (length pop = populationSize cfg
        \<longrightarrow> length (eliteAgents cfg pop fitnessScores)
            = min (eliteSize cfg) (populationSize cfg))
   \<and> eliteAgents cfg pop fitnessScores
       = map (\<lambda>i. pop ! i) (take (eliteSize cfg) (sortedIndices fitnessScores))
   \<and> take (min (eliteSize cfg) (length pop)) (fst (selectNextGeneration cfg E pop fitnessScores w))
       = eliteAgents cfg pop fitnessScores
   \<and> distinct (sortedIndices fitnessScores)
   \<and> set (sortedIndices fitnessScores) = {0..<length pop}
   \<and> sorted_wrt (ranked fitnessScores) (sortedIndices fitnessScores)"
proof -
  have len: "length (eliteAgents cfg pop fitnessScores) = min (eliteSize cfg) (length pop)"
    using assms by (simp add: length_eliteAgents)
  obtain rest where "fst (selectNextGeneration cfg E pop fitnessScores w)
      = eliteAgents cfg pop fitnessScores @ rest"
    unfolding selectNextGeneration_def using tournament_fill_prefix by blast
  then have "take (min (eliteSize cfg) (length pop))
      (fst (selectNextGeneration cfg E pop fitnessScores w)) = eliteAgents cfg pop fitnessScores"
    using len by simp
  then show ?thesis
    using len assms eliteAgents_nth[OF assms, of cfg] distinct_sortedIndices[of fitnessScores]
      set_sortedIndices[of fitnessScores] sortedIndices_ranked[of fitnessScores]
    by (auto simp: min.commute)
qed

lemma sortedIndices_example: "sortedIndices [1, 3, 3] = [1, 2, 0]"
  by (simp add: sortedIndices_def upt_rec)

lemma eliteAgents_example:
  "eliteAgents default_config [Agent 0, Agent 1, Agent 2] [1, 3, 3] = [Agent 1, Agent 2, Agent 0]"
  by (simp add: eliteAgents_def sortedIndices_example default_config_def agent_at_def)

theorem elite_selection_witness:
  "length [Agent 0, Agent 1, Agent 2] = length [1, 3, 3 :: real]
   \<and> eliteAgents default_config [Agent 0, Agent 1, Agent 2] [1, 3, 3]
       = [Agent 1, Agent 2, Agent 0]
   \<and> take 3 (fst (selectNextGeneration default_config env_still [Agent 0, Agent 1, Agent 2]
        [1, 3, 3] world0)) = [Agent 1, Agent 2, Agent 0]"
  using elite_selection[of "[Agent 0, Agent 1, Agent 2]" "[1, 3, 3]" default_config env_still world0]
    eliteAgents_example
  by (simp add: default_config_def numeral_3_eq_3)

text \<open>
  The claim as stated fails in a first generation smaller than the elite: with the
  default configuration (\<open>eliteSize = 5\<close>, \<open>populationSize = 50\<close>) and three evaluated
  agents, three agents are copied, not five.
\<close>

theorem elite_count_counterexample:
  "length (eliteAgents default_config [Agent 0, Agent 1, Agent 2] [1, 3, 3]) = 3
   \<and> min (eliteSize default_config) (populationSize default_config) = 5"
  using eliteAgents_example by (simp add: default_config_def)

subsection \<open>Failed evaluations\<close>

lemma Math_random_tick [simp]: "tick (snd (Math_random E w)) = Suc (tick w)"
  by (simp add: Math_random_def)

lemma Math_random_events [simp]: "events (snd (Math_random E w)) = Draw # events w"
  by (simp add: Math_random_def)

lemma simulateEnvironmentStep_tick:
  "tick (snd (simulateEnvironmentStep E st x w)) = tick w + 6"
  by (simp add: simulateEnvironmentStep_def Let_def split_beta)

lemma generateRandomState_tick:
  "tick (snd (generateRandomState E w)) = tick w + 7"
  by (simp add: generateRandomState_def Let_def split_beta)

lemma evaluation_loop_fails:
  "i < length steps \<Longrightarrow> \<forall>j<i. step_passes cfg E n (tick w + 8 * j) \<Longrightarrow>
   \<not> step_passes cfg E n (tick w + 8 * i) \<Longrightarrow>
   fst (evaluation_loop cfg E (Agent n) steps tot st w) = None"
proof (induction steps arbitrary: i w tot st)
  case Nil
  then show ?case by simp
next
  case (Cons step steps)
  show ?case
  proof (cases "resolves_within (acts E (tick w) n) (timer_delay (evaluationTimeout cfg))")
    case False
    then show ?thesis
      by (auto simp: race_act_def resolves_within_def Let_def split: act_outcome.splits)
  next
    case True
    then obtain d x where out: "acts E (tick w) n = Resolves d x"
      "d \<le> timer_delay (evaluationTimeout cfg)"
      by (auto simp: resolves_within_def split: act_outcome.splits)
    let ?w1 = "\<lparr>tick = Suc (tick w), events = Call (Agent n) Act # events w\<rparr>"
    have race: "race_act cfg E (Agent n) st w = (Some x, ?w1)"
      using out by (simp add: race_act_def)
    obtain st' r w2 where sim: "simulateEnvironmentStep E st x ?w1 = ((st', r), w2)"
      by (cases "simulateEnvironmentStep E st x ?w1") auto
    have t2: "tick w2 = tick w + 7"
      using simulateEnvironmentStep_tick[of E st x ?w1] sim by simp
    let ?w3 = "\<lparr>tick = Suc (tick w2), events = Call (Agent n) Learn # events w2\<rparr>"
    show ?thesis
    proof (cases "resolves E (tick w + 7) n Learn")
      case False
      then show ?thesis using race sim t2 by (simp add: learn_def invoke_def)
    next
      case learned: True
      then have pass0: "step_passes cfg E n (tick w)" using True by (simp add: step_passes_def)
      then obtain i' where i: "i = Suc i'" using Cons.prems(3) by (cases i) auto
      have "fst (evaluation_loop cfg E (Agent n) steps (tot + r) st' ?w3) = None"
      proof (rule Cons.IH)
        show "i' < length steps" using Cons.prems(1) i by simp
        show "\<forall>j<i'. step_passes cfg E n (tick ?w3 + 8 * j)"
        proof (intro allI impI)
          fix j assume "j < i'"
          then have "step_passes cfg E n (tick w + 8 * Suc j)"
            using Cons.prems(2)[rule_format, of "Suc j"] i by simp
          then show "step_passes cfg E n (tick ?w3 + 8 * j)" using t2 by (simp add: add.commute add.left_commute)
        qed
        show "\<not> step_passes cfg E n (tick ?w3 + 8 * i')"
          using Cons.prems(3) i t2 by (simp add: add.commute add.left_commute)
      qed
      then show ?thesis using race sim t2 learned by (simp add: learn_def invoke_def)
    qed
  qed
qed

lemma evaluateAgent_try_fails:
  assumes "k < evaluationSteps"
    and "\<forall>j<k. step_passes cfg E n (tick w + 7 + 8 * j)"
    and "\<not> step_passes cfg E n (tick w + 7 + 8 * k)"
  shows "fst (evaluateAgent_try cfg E (Agent n) w) = None"
proof -
  obtain st w1 where g: "generateRandomState E w = (st, w1)"
    by (cases "generateRandomState E w")
  have t1: "tick w1 = tick w + 7" using generateRandomState_tick[of E w] g by simp
  have "fst (evaluation_loop cfg E (Agent n) [0..<evaluationSteps] 0 st w1) = None"
    using assms t1 by (intro evaluation_loop_fails[where i = k]) simp_all
  then show ?thesis using g by (auto simp: evaluateAgent_try_def split: prod.splits)
qed

text \<open>Evaluations are recorded by evaluateAgent only.\<close>

lemma evaluations_Math_random [simp]:
  "evaluations (snd (Math_random E w)) = evaluations w"
  by (simp add: Math_random_def evaluations_def)

lemma evaluations_invoke [simp]: "evaluations (snd (invoke E a c w)) = evaluations w"
  by (simp add: invoke_def evaluations_def)

lemma evaluations_learn [simp]: "evaluations (snd (learn E a x w)) = evaluations w"
  by (simp add: learn_def)

lemma evaluations_learn_each [simp]:
  "evaluations (snd (learn_each E a xs w)) = evaluations w"
  by (induction xs arbitrary: w) (simp_all add: split_beta)

lemma evaluations_mutationExperience [simp]:
  "evaluations (snd (mutationExperience E i w)) = evaluations w"
  by (simp add: mutationExperience_def split_beta)

lemma evaluations_mutationExperiences [simp]:
  "evaluations (snd (mutationExperiences E i n w)) = evaluations w"
  by (induction n arbitrary: i w) (simp_all add: split_beta)

lemma evaluations_mutateAgent [simp]: "evaluations (snd (mutateAgent E a w)) = evaluations w"
  by (simp add: mutateAgent_def generateMutationExperiences_def split_beta Let_def)

lemma evaluations_crossoverExperience [simp]:
  "evaluations (snd (crossoverExperience E i w)) = evaluations w"
  by (simp add: crossoverExperience_def split_beta)

lemma evaluations_crossoverExperiences [simp]:
  "evaluations (snd (crossoverExperiences E i n w)) = evaluations w"
  by (induction n arbitrary: i w) (simp_all add: split_beta)

lemma evaluations_crossoverAgents [simp]:
  "evaluations (snd (crossoverAgents E p1 p2 w)) = evaluations w"
  by (simp add: crossoverAgents_def generateCrossoverExperiences_def split_beta Let_def)

lemma evaluations_selectRandomAgent [simp]:
  "evaluations (snd (selectRandomAgent E pop a w)) = evaluations w"
  by (simp add: selectRandomAgent_def split_beta Let_def)

lemma evaluations_applyEvolution [simp]:
  "evaluations (snd (applyEvolution cfg E pop a w)) = evaluations w"
  by (simp add: applyEvolution_def split_beta Let_def)

lemma evaluations_await_steps [simp]:
  "evaluations (snd (await_steps E a cs w)) = evaluations w"
  by (induction cs arbitrary: w) (simp_all add: split_beta)

lemma evaluations_executeAgentOakCycle [simp]:
  "evaluations (snd (executeAgentOakCycle cfg E pop a w)) = evaluations w"
  by (simp add: executeAgentOakCycle_def split_beta)

lemma evaluations_oak_batch [simp]:
  "evaluations (snd (oak_batch cfg E pop batch w)) = evaluations w"
  by (induction batch arbitrary: w) (simp_all add: split_beta)

lemma evaluations_oak_batches:
  "evaluations (snd (oak_batches cfg E pop i acc w)) = evaluations w"
proof (induction cfg E pop i acc w rule: oak_batches.induct)
  case (1 cfg E pop i acc w)
  show ?case
  proof (cases "i < length pop")
    case True
    let ?batch = "take (min 10 (length pop)) (drop i pop)"
    obtain res w1 where res: "oak_batch cfg E pop ?batch w = (res, w1)"
      by (cases "oak_batch cfg E pop ?batch w")
    have "evaluations w1 = evaluations w"
      using evaluations_oak_batch[of cfg E pop ?batch w] res by simp
    then show ?thesis
      using True res "1.IH"[OF refl True refl res[symmetric]]
      by (subst oak_batches.simps) (simp add: Let_def del: oak_batches.simps)
  next
    case False
    then show ?thesis by (subst oak_batches.simps) simp
  qed
qed

lemma evaluations_executeOakCycle [simp]:
  "evaluations (snd (executeOakCycle cfg E pop w)) = evaluations w"
  by (simp add: executeOakCycle_def evaluations_oak_batches del: oak_batches.simps)

lemma evaluations_race_act [simp]:
  "evaluations (snd (race_act cfg E a st w)) = evaluations w"
  by (simp add: race_act_def evaluations_def)

lemma evaluations_simulateEnvironmentStep [simp]:
  "evaluations (snd (simulateEnvironmentStep E st x w)) = evaluations w"
  by (simp add: simulateEnvironmentStep_def split_beta Let_def)

lemma evaluations_generateRandomState [simp]:
  "evaluations (snd (generateRandomState E w)) = evaluations w"
  by (simp add: generateRandomState_def split_beta)

lemma evaluations_evaluation_loop [simp]:
  "evaluations (snd (evaluation_loop cfg E a steps tot st w)) = evaluations w"
  by (induction steps arbitrary: tot st w) (simp_all add: split_beta Let_def split: option.splits)

lemma evaluations_evaluateAgent_try [simp]:
  "evaluations (snd (evaluateAgent_try cfg E a w)) = evaluations w"
  by (simp add: evaluateAgent_try_def split_beta Let_def split: option.splits)

lemma evaluations_evaluateAgent:
  "evaluations (snd (evaluateAgent cfg E a w)) = (a, fst (evaluateAgent cfg E a w)) # evaluations w"
proof -
  have "evaluations (snd (evaluateAgent cfg E a w))
     = (a, fst (evaluateAgent cfg E a w)) # evaluations (snd (evaluateAgent_try cfg E a w))"
    by (simp add: evaluateAgent_def evaluations_def emit_def Let_def split: prod.splits)
  then show ?thesis by simp
qed

lemma evaluatePopulation_length [simp]:
  "length (fst (evaluatePopulation cfg E pop w)) = length pop"
  by (induction pop arbitrary: w) (simp_all add: split_beta)

lemma evaluations_evaluatePopulation:
  "evaluations (snd (evaluatePopulation cfg E pop w))
     = rev (zip pop (fst (evaluatePopulation cfg E pop w))) @ evaluations w"
  by (induction pop arbitrary: w) (simp_all add: split_beta evaluations_evaluateAgent)

lemma evaluations_tournament_entries [simp]:
  "evaluations (snd (tournament_entries E pop fs n w)) = evaluations w"
  by (induction n arbitrary: w) (simp_all add: split_beta Let_def)

lemma evaluations_tournamentSelection [simp]:
  "evaluations (snd (tournamentSelection E pop fs w)) = evaluations w"
  by (simp add: tournamentSelection_def split_beta Let_def)

lemma evaluations_tournament_fill:
  "evaluations (snd (tournament_fill cfg E pop fs acc w)) = evaluations w"
proof (induction cfg E pop fs acc w rule: tournament_fill.induct)
  case (1 cfg E pop fs acc w)
  show ?case
  proof (cases "length acc < populationSize cfg")
    case True
    obtain sel w1 where sel: "tournamentSelection E pop fs w = (sel, w1)"
      by (cases "tournamentSelection E pop fs w")
    have "evaluations w1 = evaluations w"
      using evaluations_tournamentSelection[of E pop fs w] sel by simp
    then show ?thesis
      using True sel "1.IH"[OF True sel[symmetric]]
      by (subst tournament_fill.simps) (simp del: tournament_fill.simps)
  next
    case False
    then show ?thesis by (subst tournament_fill.simps) simp
  qed
qed

lemma evaluations_selectNextGeneration [simp]:
  "evaluations (snd (selectNextGeneration cfg E pop fs w)) = evaluations w"
  by (simp add: selectNextGeneration_def evaluations_tournament_fill del: tournament_fill.simps)

lemma evaluations_emit [simp]:
  "evaluations (emit (NewBestAgent a f g) w) = evaluations w"
  "evaluations (emit (GenerationComplete m) w) = evaluations w"
  "evaluations (emit EvolutionStarted w) = evaluations w"
  "evaluations (emit (EvolutionComplete b f g) w) = evaluations w"
  by (simp_all add: emit_def evaluations_def)

lemma evaluateAgent_resolves_late:
  "fst (evaluateAgent_try cfg_instant env_tardy (Agent 0) world0) = Some (- (7 / 10))"
  by (simp add: evaluateAgent_try_def generateRandomState_def Math_random_def
      evaluationSteps_def upt_rec[of 0] upt_rec[of "Suc _"] race_act_def timer_delay_def
      simulateEnvironmentStep_def assessActionQuality_def learn_def invoke_def
      env_tardy_def cfg_instant_def default_config_def world0_def Let_def)

text \<open>
  C6, as amended. In the evaluation of an agent that starts in world \<open>w\<close>, step \<open>j\<close> begins
  at count \<open>tick w + 7 + 8 * j\<close>. When step \<open>k\<close> of the ten is the first at which the race for
  \<open>act\<close> is lost (the call has not resolved when the timer fires: it is late, rejects or
  never settles) or at which \<open>learn\<close> throws, the try block is left by the throw, the catch
  block makes the fitness \<open>-1\<close>, and that score is what the generation records for the
  agent. The timer fires after \<open>evaluationTimeout\<close> milliseconds when that lies between 1
  and \<open>2^31 - 1\<close>, and after one millisecond otherwise. evaluateAgent always returns a
  number, so nothing reaches the loop of run.
\<close>

theorem evaluateAgent_penalty:
  assumes "k < evaluationSteps"
    and "\<forall>j<k. step_passes cfg E n (tick w + 7 + 8 * j)"
    and "\<not> step_passes cfg E n (tick w + 7 + 8 * k)"
  shows "fst (evaluateAgent_try cfg E (Agent n) w) = None
   \<and> fst (evaluateAgent cfg E (Agent n) w) = - 1
   \<and> evaluations (snd (evaluateAgent cfg E (Agent n) w)) = (Agent n, - 1) # evaluations w
   \<and> (1 \<le> evaluationTimeout cfg \<and> evaluationTimeout cfg \<le> 2147483647
        \<longrightarrow> timer_delay (evaluationTimeout cfg) = evaluationTimeout cfg)"
proof -
  have "fst (evaluateAgent_try cfg E (Agent n) w) = None"
    using assms by (rule evaluateAgent_try_fails)
  moreover from this have "fst (evaluateAgent cfg E (Agent n) w) = - 1"
    by (auto simp: evaluateAgent_def Let_def split: prod.splits)
  ultimately show ?thesis using evaluations_evaluateAgent[of cfg E "Agent n" w]
    by (simp add: timer_delay_def)
qed

theorem evaluateAgent_penalty_witness:
  "0 < evaluationSteps
   \<and> timer_delay (evaluationTimeout cfg_hasty) = 1
   \<and> \<not> resolves_within (acts env_slow 7 0) (timer_delay (evaluationTimeout cfg_hasty))
   \<and> fst (evaluateAgent cfg_hasty env_slow (Agent 0) world0) = - 1"
  using evaluateAgent_penalty[of 0 cfg_hasty env_slow 0 world0]
  by (simp add: evaluationSteps_def step_passes_def resolves_within_def env_slow_def
      cfg_hasty_def world0_def timer_delay_def)

text \<open>
  The claim as stated fails at a timeout of zero: an \<open>act\<close> that resolves one millisecond
  after the timer is set does not resolve within \<open>evaluationTimeout\<close>, yet the timer is set
  to one millisecond, every race is won, the try block returns a score and the fitness
  is not the penalty.
\<close>

theorem evaluateAgent_penalty_counterexample:
  "\<not> resolves_within (acts env_tardy 7 0) (evaluationTimeout cfg_instant)
   \<and> fst (evaluateAgent_try cfg_instant env_tardy (Agent 0) world0) \<noteq> None
   \<and> fst (evaluateAgent cfg_instant env_tardy (Agent 0) world0) \<noteq> - 1"
proof -
  have "\<not> resolves_within (acts env_tardy 7 0) (evaluationTimeout cfg_instant)"
    by (simp add: resolves_within_def env_tardy_def cfg_instant_def)
  moreover have "fst (evaluateAgent cfg_instant env_tardy (Agent 0) world0) = - (7 / 10)"
    using evaluateAgent_resolves_late
    by (auto simp: evaluateAgent_def Let_def split: prod.splits)
  ultimately show ?thesis using evaluateAgent_resolves_late by simp
qed

subsection \<open>A pass evaluated\<close>

text \<open>One pass over a population of one agent that always throws and never acts.\<close>

lemma sortedIndices_single: "sortedIndices [x] = [0]"
  by (simp add: sortedIndices_def)

lemma oak_cycle_thrower_alone:
  "executeOakCycle cfg env_first_throws [Agent 0] w
   = ([Agent 0], \<lparr>tick = Suc (tick w), events = Call (Agent 0) LearnPoliciesAndValues # events w\<rparr>)"
  by (simp add: executeOakCycle_def executeAgentOakCycle_def oak_steps_def
      invoke_def env_first_throws_def)

lemma evaluateAgent_never_acts:
  "evaluateAgent cfg env_first_throws (Agent 0) w
   = (- 1, \<lparr>tick = tick w + 8,
        events = Evaluated (Agent 0) (- 1) # Call (Agent 0) Act # Draw # Draw # Draw # Draw # Draw
          # Draw # Draw # events w\<rparr>)"
  by (simp add: evaluateAgent_def evaluateAgent_try_def generateRandomState_def Math_random_def
      evaluationSteps_def upt_rec[of 0] race_act_def env_first_throws_def emit_def Let_def)

lemma pass_thrower_alone:
  assumes "populationSize cfg = 1" "eliteSize cfg = 1"
  shows "generation_pass cfg env_first_throws stops loop_started w
   = (False,
      \<lparr> population = [Agent 0], generation = 1, bestAgent = Some (Agent 0),
        bestFitness = Fin (- 1), metrics = [metrics_penalty], isRunning = \<not> stops 0 \<rparr>,
      \<lparr> tick = tick w + 9,
        events = [GenerationComplete metrics_penalty, NewBestAgent (Agent 0) (Fin (- 1)) 0,
          Evaluated (Agent 0) (- 1), Call (Agent 0) Act, Draw, Draw, Draw, Draw, Draw, Draw, Draw,
          Call (Agent 0) LearnPoliciesAndValues] @ events w \<rparr>)"
  using assms
  by (simp add: generation_pass_def oak_cycle_thrower_alone evaluateAgent_never_acts
      updateBestAgent_def js_gt_def loop_started_def new_loop_def agent_at_def emit_def
      calculateMetrics_def calculateConvergenceRate_def mean_def
      calculatePopulationDiversity_def hasConverged_def selectNextGeneration_def
      eliteAgents_def sortedIndices_single stop_def Let_def world0_def metrics_penalty_def)
    (simp add: env_first_throws_def)

lemma run_thrower_alone:
  "run cfg_one env_first_throws (\<lambda>g. False) [Agent 0] new_loop world0
   = (Some (Agent 0),
      \<lparr> population = [Agent 0], generation = 1, bestAgent = Some (Agent 0),
        bestFitness = Fin (- 1), metrics = [metrics_penalty], isRunning = False \<rparr>,
      \<lparr> tick = 9,
        events = [EvolutionComplete (Some (Agent 0)) (Fin (- 1)) 1,
          GenerationComplete metrics_penalty, NewBestAgent (Agent 0) (Fin (- 1)) 0,
          Evaluated (Agent 0) (- 1), Call (Agent 0) Act, Draw, Draw, Draw, Draw, Draw, Draw, Draw,
          Call (Agent 0) LearnPoliciesAndValues, EvolutionStarted] \<rparr>)"
proof -
  have c: "populationSize cfg_one = 1" "eliteSize cfg_one = 1" "generationLimit cfg_one = 1"
    by (simp_all add: cfg_one_def)
  have s1: "new_loop\<lparr>isRunning := True, population := [Agent 0], generation := 0\<rparr> = loop_started"
    by (simp add: loop_started_def new_loop_def)
  show ?thesis
    unfolding run_def s1
    using pass_thrower_alone[OF c(1,2), of "\<lambda>g. False" "emit EvolutionStarted world0"] c(3)
    by (simp add: loop_started_def new_loop_def emit_def world0_def)
qed

subsection \<open>Stopping the run\<close>

lemma generation_pass_break_generation:
  "generation_pass cfg E stops s w = (True, s', w') \<Longrightarrow> generation s' = generation s"
  by (auto simp: generation_pass_def Let_def stop_def updateBestAgent_def
      split: prod.splits if_splits)

lemma generation_pass_stopped:
  "stops (generation s) \<Longrightarrow> \<not> isRunning (fst (snd (generation_pass cfg E stops s w)))"
  by (auto simp: generation_pass_def Let_def stop_def split: prod.splits if_splits)

lemma generation_pass_without_stop:
  "generation_pass cfg E stops s w
     = (case generation_pass cfg E (\<lambda>g. False) s w of
          (brk, s', w') \<Rightarrow> (brk, if stops (generation s) then stop s' else s', w'))"
  by (simp add: generation_pass_def Let_def split: prod.splits)

lemma run_loop_not_running: "\<not> isRunning s \<Longrightarrow> run_loop cfg E stops s w = (s, w)"
  by simp

lemma run_loop_stop_in_flight:
  assumes "isRunning s" "generation s < generationLimit cfg" "stops (generation s)"
  shows "run_loop cfg E stops s w = snd (generation_pass cfg E stops s w)"
proof -
  obtain brk s' w' where p: "generation_pass cfg E stops s w = (brk, s', w')"
    by (cases "generation_pass cfg E stops s w")
  have "\<not> isRunning s'"
    using generation_pass_stopped[where stops = stops and s = s and cfg = cfg and E = E and w = w]
      assms(3) p by simp
  then have "run_loop cfg E stops s' w' = (s', w')" by (rule run_loop_not_running)
  then show ?thesis using assms p
    by (subst run_loop.simps) (simp del: run_loop.simps split: bool.splits)
qed

lemma run_loop_generation_bound:
  "stops g \<Longrightarrow> generation s \<le> g \<Longrightarrow> generation (fst (run_loop cfg E stops s w)) \<le> Suc g"
proof (induction cfg E stops s w rule: run_loop.induct)
  case (1 cfg E stops s w)
  show ?case
  proof (cases "isRunning s \<and> generation s < generationLimit cfg")
    case False
    then show ?thesis using "1.prems" by (subst run_loop.simps) auto
  next
    case True
    obtain brk s' w' where p: "generation_pass cfg E stops s w = (brk, s', w')"
      by (cases "generation_pass cfg E stops s w")
    show ?thesis
    proof (cases brk)
      case True
      then have "generation s' = generation s"
        using p generation_pass_break_generation[of cfg E stops s w s' w'] by simp
      then show ?thesis using \<open>isRunning s \<and> generation s < generationLimit cfg\<close> p True "1.prems"
        by (subst run_loop.simps) (simp del: run_loop.simps)
    next
      case False
      then have g': "generation s' = Suc (generation s)"
        using p generation_pass_generation[of cfg E stops s w s' w'] by simp
      show ?thesis
      proof (cases "generation s = g")
        case True
        then have "\<not> isRunning s'"
          using generation_pass_stopped[where stops = stops and s = s and cfg = cfg and E = E
              and w = w] p "1.prems" by simp
        then have "run_loop cfg E stops s' w' = (s', w')" by (rule run_loop_not_running)
        then show ?thesis using \<open>isRunning s \<and> generation s < generationLimit cfg\<close> p False g' True
          by (subst run_loop.simps) (simp del: run_loop.simps)
      next
        case neq: False
        then have "generation s' \<le> g" using g' "1.prems" by simp
        then have "generation (fst (run_loop cfg E stops s' w')) \<le> Suc g"
          using "1.IH"[OF \<open>isRunning s \<and> generation s < generationLimit cfg\<close> p[symmetric] _ refl "1.prems"(1)] False
          by simp
        then show ?thesis using \<open>isRunning s \<and> generation s < generationLimit cfg\<close> p False
          by (subst run_loop.simps) (simp del: run_loop.simps)
      qed
    qed
  qed
qed

text \<open>The generation limit is read by the loop condition only.\<close>

lemma applyEvolution_limit [simp]:
  "applyEvolution (cfg\<lparr>generationLimit := n\<rparr>) E pop a w = applyEvolution cfg E pop a w"
  by (simp add: applyEvolution_def)

lemma executeAgentOakCycle_limit [simp]:
  "executeAgentOakCycle (cfg\<lparr>generationLimit := n\<rparr>) E pop a w
     = executeAgentOakCycle cfg E pop a w"
  by (simp add: executeAgentOakCycle_def split_beta)

lemma oak_batch_limit [simp]:
  "oak_batch (cfg\<lparr>generationLimit := n\<rparr>) E pop batch w = oak_batch cfg E pop batch w"
  by (induction batch arbitrary: w) simp_all

lemma oak_batches_limit:
  "oak_batches (cfg\<lparr>generationLimit := n\<rparr>) E pop i acc w = oak_batches cfg E pop i acc w"
proof (induction cfg E pop i acc w rule: oak_batches.induct)
  case (1 cfg E pop i acc w)
  let ?cfg' = "cfg\<lparr>generationLimit := n\<rparr>"
  show ?case
  proof (cases "i < length pop")
    case True
    let ?bs = "min 10 (length pop)"
    let ?batch = "take ?bs (drop i pop)"
    obtain res w1 where res: "oak_batch cfg E pop ?batch w = (res, w1)"
      by (cases "oak_batch cfg E pop ?batch w")
    have l: "oak_batches ?cfg' E pop i acc w = oak_batches ?cfg' E pop (i + ?bs) (acc @ res) w1"
      using True res by (subst oak_batches.simps) (simp add: Let_def del: oak_batches.simps)
    have r: "oak_batches cfg E pop i acc w = oak_batches cfg E pop (i + ?bs) (acc @ res) w1"
      using True res by (subst oak_batches.simps) (simp add: Let_def del: oak_batches.simps)
    show ?thesis
      using l r "1.IH"[OF refl True refl res[symmetric]] by (simp del: oak_batches.simps)
  next
    case False
    then show ?thesis by simp
  qed
qed

lemma executeOakCycle_limit [simp]:
  "executeOakCycle (cfg\<lparr>generationLimit := n\<rparr>) E pop w = executeOakCycle cfg E pop w"
  by (simp add: executeOakCycle_def oak_batches_limit del: oak_batches.simps)

lemma race_act_limit [simp]:
  "race_act (cfg\<lparr>generationLimit := n\<rparr>) E a st w = race_act cfg E a st w"
  by (simp add: race_act_def split: agent.splits act_outcome.splits)

lemma evaluation_loop_limit [simp]:
  "evaluation_loop (cfg\<lparr>generationLimit := n\<rparr>) E a steps tot st w
     = evaluation_loop cfg E a steps tot st w"
  by (induction steps arbitrary: tot st w) (simp_all add: split_beta Let_def split: option.splits)

lemma evaluateAgent_limit [simp]:
  "evaluateAgent (cfg\<lparr>generationLimit := n\<rparr>) E a w = evaluateAgent cfg E a w"
  by (simp add: evaluateAgent_def evaluateAgent_try_def split_beta Let_def split: option.splits)

lemma evaluatePopulation_limit [simp]:
  "evaluatePopulation (cfg\<lparr>generationLimit := n\<rparr>) E pop w = evaluatePopulation cfg E pop w"
  by (induction pop arbitrary: w) simp_all

lemma hasConverged_limit [simp]:
  "hasConverged (cfg\<lparr>generationLimit := n\<rparr>) s = hasConverged cfg s"
  by (simp add: hasConverged_def)

lemma eliteAgents_limit [simp]:
  "eliteAgents (cfg\<lparr>generationLimit := n\<rparr>) pop fs = eliteAgents cfg pop fs"
  by (simp add: eliteAgents_def)

lemma tournament_fill_limit:
  "tournament_fill (cfg\<lparr>generationLimit := n\<rparr>) E pop fs acc w
     = tournament_fill cfg E pop fs acc w"
proof (induction cfg E pop fs acc w rule: tournament_fill.induct)
  case (1 cfg E pop fs acc w)
  let ?cfg' = "cfg\<lparr>generationLimit := n\<rparr>"
  show ?case
  proof (cases "length acc < populationSize cfg")
    case True
    obtain sel w1 where sel: "tournamentSelection E pop fs w = (sel, w1)"
      by (cases "tournamentSelection E pop fs w")
    have l: "tournament_fill ?cfg' E pop fs acc w = tournament_fill ?cfg' E pop fs (acc @ [sel]) w1"
      using True sel by (subst tournament_fill.simps) (simp del: tournament_fill.simps)
    have r: "tournament_fill cfg E pop fs acc w = tournament_fill cfg E pop fs (acc @ [sel]) w1"
      using True sel by (subst tournament_fill.simps) (simp del: tournament_fill.simps)
    show ?thesis
      using l r "1.IH"[OF True sel[symmetric]] by (simp del: tournament_fill.simps)
  next
    case False
    then show ?thesis by simp
  qed
qed

lemma selectNextGeneration_limit [simp]:
  "selectNextGeneration (cfg\<lparr>generationLimit := n\<rparr>) E pop fs w
     = selectNextGeneration cfg E pop fs w"
  by (simp add: selectNextGeneration_def tournament_fill_limit del: tournament_fill.simps)

lemma generation_pass_limit:
  "generation_pass (cfg\<lparr>generationLimit := n\<rparr>) E stops s w = generation_pass cfg E stops s w"
  by (simp add: generation_pass_def split_beta Let_def)

lemma generation_pass_not_stopped:
  "\<not> stops (generation s) \<Longrightarrow>
   generation_pass cfg E stops s w = generation_pass cfg E (\<lambda>g. False) s w"
  by (simp add: generation_pass_def)

lemma generation_pass_isRunning:
  "generation_pass cfg E (\<lambda>g. False) s w = (brk, s', w') \<Longrightarrow> isRunning s' = isRunning s"
  by (auto simp: generation_pass_def Let_def updateBestAgent_def split_beta split: if_splits)

lemma run_loop_stopped:
  "isRunning s \<Longrightarrow> generation s \<le> g \<Longrightarrow> stops g \<Longrightarrow> \<forall>j<g. \<not> stops j \<Longrightarrow>
   (fst (run_loop cfg E stops s w))\<lparr>isRunning := False\<rparr>
     = (fst (run_loop (stopped_limit cfg g) E (\<lambda>g. False) s w))\<lparr>isRunning := False\<rparr>
   \<and> snd (run_loop cfg E stops s w) = snd (run_loop (stopped_limit cfg g) E (\<lambda>g. False) s w)"
proof (induction cfg E stops s w rule: run_loop.induct)
  case (1 cfg E stops s w)
  let ?cfg' = "stopped_limit cfg g"
  let ?never = "\<lambda>g::nat. False"
  show ?case
  proof (cases "generation s < generationLimit cfg")
    case False
    then have "run_loop cfg E stops s w = (s, w)" "run_loop ?cfg' E ?never s w = (s, w)"
      by (simp_all add: stopped_limit_def)
    then show ?thesis by (simp del: run_loop.simps)
  next
    case True
    then have c: "isRunning s \<and> generation s < generationLimit cfg" using "1.prems"(1) by simp
    have c': "isRunning s \<and> generation s < generationLimit ?cfg'"
      using c "1.prems"(2) by (simp add: stopped_limit_def)
    obtain brk s' w' where p': "generation_pass cfg E ?never s w = (brk, s', w')"
      by (cases "generation_pass cfg E ?never s w")
    let ?s'' = "if stops (generation s) then stop s' else s'"
    have p: "generation_pass cfg E stops s w = (brk, ?s'', w')"
      using generation_pass_without_stop[of cfg E stops s w] p' by simp
    have pl: "generation_pass ?cfg' E ?never s w = (brk, s', w')"
      using p' by (simp add: stopped_limit_def generation_pass_limit)
    have modulo: "?s''\<lparr>isRunning := False\<rparr> = s'\<lparr>isRunning := False\<rparr>"
      by (simp add: stop_def)
    show ?thesis
    proof (cases brk)
      case True
      have "run_loop cfg E stops s w = (?s'', w')"
        using c p True by (subst run_loop.simps) (simp del: run_loop.simps)
      moreover have "run_loop ?cfg' E ?never s w = (s', w')"
        using c' pl True by (subst run_loop.simps) (simp del: run_loop.simps)
      ultimately show ?thesis using modulo by (simp del: run_loop.simps)
    next
      case False
      have l: "run_loop cfg E stops s w = run_loop cfg E stops ?s'' w'"
        using c p False by (subst run_loop.simps) (simp del: run_loop.simps)
      have r: "run_loop ?cfg' E ?never s w = run_loop ?cfg' E ?never s' w'"
        using c' pl False by (subst run_loop.simps) (simp del: run_loop.simps)
      have g': "generation s' = Suc (generation s)"
        using p' False generation_pass_generation[of cfg E ?never s w s' w'] by simp
      show ?thesis
      proof (cases "generation s = g")
        case True
        then have "?s'' = stop s'" using "1.prems"(3) by simp
        then have "run_loop cfg E stops ?s'' w' = (stop s', w')"
          using run_loop_not_running[of "stop s'" cfg E stops w'] by (simp add: stop_def del: run_loop.simps)
        moreover have "run_loop ?cfg' E ?never s' w' = (s', w')"
          using g' True by (subst run_loop.simps) (simp add: stopped_limit_def del: run_loop.simps)
        ultimately show ?thesis using l r by (simp add: stop_def del: run_loop.simps)
      next
        case neq: False
        then have lt: "generation s < g" using "1.prems"(2) by simp
        then have ns: "\<not> stops (generation s)" using "1.prems"(4) by simp
        then have same: "?s'' = s'" by simp
        have run': "isRunning s'" using generation_pass_isRunning[OF p'] "1.prems"(1) by simp
        have le: "generation s' \<le> g" using g' lt by simp
        have ih: "(fst (run_loop cfg E stops s' w'))\<lparr>isRunning := False\<rparr>
            = (fst (run_loop ?cfg' E ?never s' w'))\<lparr>isRunning := False\<rparr>
          \<and> snd (run_loop cfg E stops s' w') = snd (run_loop ?cfg' E ?never s' w')"
        proof -
          have p2: "generation_pass cfg E stops s w = (brk, s', w')" using p same by simp
          show ?thesis
            using "1.IH"[OF c p2[symmetric] _ refl run' le "1.prems"(3,4)] False
            by (simp del: run_loop.simps)
        qed
        then show ?thesis using l r same by (simp del: run_loop.simps)
      qed
    qed
  qed
qed

text \<open>
  C8. Let \<^verbatim>\<open>stop()\<close> be called for the first time while the pass with generation
  counter \<open>g\<close> is in flight (the counter starts at zero). Then run does what a run that
  is never stopped does when its generation limit is \<open>g + 1\<close>, or its own limit if that
  is lower: the loop makes the passes with counters up to \<open>g\<close> and no further one, and the
  agent returned is the best agent tracked at the end of the last of them. The run ends
  with its generation counter at most \<open>g + 1\<close>. The pass in flight is not cut short: from the
  state in which it begins, the loop runs exactly this pass, which does what it does
  without the call except that \<open>isRunning\<close> is cleared. From a stopped state no pass
  begins and the world sees nothing more.
\<close>

theorem stop_ends_the_run:
  assumes "stops g" and "\<forall>j<g. \<not> stops j"
  shows "run cfg E stops initialPopulation s0 w0
       = (case run_loop (stopped_limit cfg g) E (\<lambda>g. False)
                 (s0\<lparr>isRunning := True, population := initialPopulation, generation := 0\<rparr>)
                 (emit EvolutionStarted w0) of
            (s', w') \<Rightarrow>
              (bestAgent s', s'\<lparr>isRunning := False\<rparr>,
               emit (EvolutionComplete (bestAgent s') (bestFitness s') (generation s')) w'))
   \<and> run cfg E stops initialPopulation s0 w0
       = run (stopped_limit cfg g) E (\<lambda>g. False) initialPopulation s0 w0
   \<and> generation (fst (snd (run cfg E stops initialPopulation s0 w0))) \<le> Suc g
   \<and> (isRunning s \<and> generation s = g \<and> g < generationLimit cfg
        \<longrightarrow> run_loop cfg E stops s w = snd (generation_pass cfg E stops s w)
          \<and> generation_pass cfg E stops s w
              = (case generation_pass cfg E (\<lambda>g. False) s w of
                   (brk, s', w') \<Rightarrow> (brk, stop s', w')))
   \<and> run_loop cfg E stops' (stop s') w' = (stop s', w')"
proof -
  let ?s1 = "s0\<lparr>isRunning := True, population := initialPopulation, generation := 0\<rparr>"
  let ?w1 = "emit EvolutionStarted w0"
  let ?r = "run_loop cfg E stops ?s1 ?w1"
  let ?r' = "run_loop (stopped_limit cfg g) E (\<lambda>g. False) ?s1 ?w1"
  have eq: "(fst ?r)\<lparr>isRunning := False\<rparr> = (fst ?r')\<lparr>isRunning := False\<rparr>" "snd ?r = snd ?r'"
    using run_loop_stopped[where s = ?s1 and g = g and stops = stops and cfg = cfg and E = E
        and w = ?w1] assms
    by (simp_all del: run_loop.simps)
  have "bestAgent ((fst ?r)\<lparr>isRunning := False\<rparr>) = bestAgent ((fst ?r')\<lparr>isRunning := False\<rparr>)"
    "bestFitness ((fst ?r)\<lparr>isRunning := False\<rparr>) = bestFitness ((fst ?r')\<lparr>isRunning := False\<rparr>)"
    "generation ((fst ?r)\<lparr>isRunning := False\<rparr>) = generation ((fst ?r')\<lparr>isRunning := False\<rparr>)"
    using eq(1) by (simp_all only:)
  then have fields: "bestAgent (fst ?r) = bestAgent (fst ?r')"
    "bestFitness (fst ?r) = bestFitness (fst ?r')" "generation (fst ?r) = generation (fst ?r')"
    by (simp_all del: run_loop.simps)
  have A: "run cfg E stops initialPopulation s0 w0
       = (case ?r' of
            (s', w') \<Rightarrow>
              (bestAgent s', s'\<lparr>isRunning := False\<rparr>,
               emit (EvolutionComplete (bestAgent s') (bestFitness s') (generation s')) w'))"
    using eq fields by (simp add: run_def Let_def split_beta del: run_loop.simps)
  have B: "run cfg E stops initialPopulation s0 w0
       = run (stopped_limit cfg g) E (\<lambda>g. False) initialPopulation s0 w0"
    unfolding A by (simp add: run_def Let_def split_beta del: run_loop.simps)
  have C: "generation (fst (snd (run cfg E stops initialPopulation s0 w0))) \<le> Suc g"
    using run_loop_generation_bound[where stops = stops and g = g and cfg = cfg
        and E = E and w = ?w1 and s = ?s1] assms(1)
    by (simp add: run_def Let_def split_beta del: run_loop.simps)
  have D: "run_loop cfg E stops s w = snd (generation_pass cfg E stops s w)
          \<and> generation_pass cfg E stops s w
              = (case generation_pass cfg E (\<lambda>g. False) s w of
                   (brk, s', w') \<Rightarrow> (brk, stop s', w'))"
    if "isRunning s \<and> generation s = g \<and> g < generationLimit cfg"
    using that assms(1) run_loop_stop_in_flight[where s = s and stops = stops and cfg = cfg
        and E = E and w = w] generation_pass_without_stop[of cfg E stops s w]
    by (simp del: run_loop.simps)
  have E': "run_loop cfg E stops' (stop s') w' = (stop s', w')"
    by (rule run_loop_not_running) (simp add: stop_def)
  show ?thesis using A B C D E' by blast
qed

theorem stop_ends_the_run_witness:
  "generationLimit cfg_ten = 10
   \<and> run cfg_ten env_first_throws (\<lambda>g. g = 0) [Agent 0] new_loop world0
       = (Some (Agent 0),
          \<lparr> population = [Agent 0], generation = 1, bestAgent = Some (Agent 0),
            bestFitness = Fin (- 1), metrics = [metrics_penalty], isRunning = False \<rparr>,
          \<lparr> tick = 9,
            events = [EvolutionComplete (Some (Agent 0)) (Fin (- 1)) 1,
              GenerationComplete metrics_penalty, NewBestAgent (Agent 0) (Fin (- 1)) 0,
              Evaluated (Agent 0) (- 1), Call (Agent 0) Act, Draw, Draw, Draw, Draw, Draw, Draw,
              Draw, Call (Agent 0) LearnPoliciesAndValues, EvolutionStarted] \<rparr>)"
proof -
  have h: "(\<lambda>g. g = 0) (0::nat)" "\<forall>j<0::nat. \<not> (\<lambda>g. g = 0) j" by simp_all
  have c: "stopped_limit cfg_ten 0 = cfg_one"
    by (simp add: stopped_limit_def cfg_ten_def cfg_one_def default_config_def)
  have "run cfg_ten env_first_throws (\<lambda>g. g = 0) [Agent 0] new_loop world0
      = run (stopped_limit cfg_ten 0) env_first_throws (\<lambda>g. False) [Agent 0] new_loop world0"
    using stop_ends_the_run[where stops = "\<lambda>g. g = 0" and g = 0 and cfg = cfg_ten
        and E = env_first_throws and initialPopulation = "[Agent 0]" and ?s0.0 = new_loop
        and ?w0.0 = world0, THEN conjunct2, THEN conjunct1] h by blast
  then show ?thesis
    unfolding c using run_thrower_alone by (simp add: cfg_ten_def)
qed

subsection \<open>The tracked best agent\<close>

lemma Math_max_Nil_iff: "(Math_max fs = NegInfinity) = (fs = [])"
  by (cases fs) (auto split: jsnum.splits)

lemma Math_max_Fin:
  "fs \<noteq> [] \<Longrightarrow> \<exists>m. Math_max fs = Fin m \<and> m \<in> set fs \<and> (\<forall>f \<in> set fs. f \<le> m)"
proof (induction fs)
  case Nil
  then show ?case by simp
next
  case (Cons x xs)
  show ?case
  proof (cases "xs = []")
    case True
    then show ?thesis by simp
  next
    case False
    with Cons.IH obtain m where "Math_max xs = Fin m" "m \<in> set xs" "\<forall>f \<in> set xs. f \<le> m"
      by blast
    then show ?thesis by (auto simp: max_def)
  qed
qed

lemma indexOf_member:
  "m \<in> set fs \<Longrightarrow> 0 \<le> indexOf fs (Fin m) \<and> indexOf fs (Fin m) < int (length fs)
     \<and> fs ! nat (indexOf fs (Fin m)) = m"
  by (induction fs) (auto simp: Let_def nat_add_distrib)

lemma agent_at_indexOf:
  assumes "m \<in> set fs" "length pop = length fs"
  shows "(agent_at pop (indexOf fs (Fin m)), m) \<in> set (zip pop fs)"
proof -
  let ?i = "nat (indexOf fs (Fin m))"
  have i: "0 \<le> indexOf fs (Fin m)" "indexOf fs (Fin m) < int (length fs)"
    "?i < length fs" "fs ! ?i = m"
    using indexOf_member[OF assms(1)] by auto
  then have "agent_at pop (indexOf fs (Fin m)) = pop ! ?i"
    using assms(2) by (simp add: agent_at_def)
  moreover have "(pop ! ?i, fs ! ?i) \<in> set (zip pop fs)"
    using i assms(2) by (auto simp: set_zip)
  ultimately show ?thesis using i by simp
qed

lemma js_le_Fin [simp]: "js_le (Fin a) (Fin b) = (a \<le> b)"
  by (auto simp: js_le_def)

lemma js_le_NegInfinity [simp]: "js_le (Fin a) NegInfinity = False"
  by (simp add: js_le_def)

lemma js_gt_irrefl [simp]: "js_gt a a = False"
  by (cases a) (simp_all add: js_gt_def)

lemma updateBestAgent_changes:
  "((bestAgent (fst (updateBestAgent s pop fs w)), bestFitness (fst (updateBestAgent s pop fs w)))
      \<noteq> (bestAgent s, bestFitness s))
   = js_gt (Math_max fs) (bestFitness s)"
proof (cases "js_gt (Math_max fs) (bestFitness s)")
  case True
  then have "Math_max fs \<noteq> bestFitness s" by auto
  then show ?thesis using True by (simp add: updateBestAgent_def Let_def)
next
  case False
  then show ?thesis by (simp add: updateBestAgent_def Let_def)
qed

lemma updateBestAgent_tracked:
  assumes "tracked s w" and "length pop = length fs"
    and "evaluations w2 = rev (zip pop fs) @ evaluations w"
    and "updateBestAgent s pop fs w2 = (s1, w3)"
  shows "tracked s1 w3 \<and> (fs \<noteq> [] \<longrightarrow> bestAgent s1 \<noteq> None)
     \<and> (bestAgent s \<noteq> None \<longrightarrow> bestAgent s1 \<noteq> None)"
proof (cases "fs = []")
  case True
  then have "Math_max fs = NegInfinity" by simp
  then have "\<not> js_gt (Math_max fs) (bestFitness s)"
    by (cases "bestFitness s") (simp_all add: js_gt_def)
  then have "s1 = s" "w3 = w2" using assms(4) by (simp_all add: updateBestAgent_def Let_def)
  then show ?thesis using assms(1,2,3) True
    by (auto simp: tracked_def split: option.splits jsnum.splits)
next
  case False
  then obtain m where m: "Math_max fs = Fin m" "m \<in> set fs" "\<forall>f \<in> set fs. f \<le> m"
    using Math_max_Fin by blast
  have new: "\<forall>p \<in> set (zip pop fs). snd p \<le> m"
    using m(3) by (auto dest: set_zip_rightD)
  consider (neg) "bestAgent s = None" "bestFitness s = NegInfinity"
    | (fin) a b where "bestAgent s = Some a" "bestFitness s = Fin b" "(a, b) \<in> set (evaluations w)"
    using assms(1) by (auto simp: tracked_def split: option.splits jsnum.splits)
  then show ?thesis
  proof cases
    case neg
    then have old: "evaluations w = []"
      using assms(1) by (cases "evaluations w") (auto simp: tracked_def)
    have upd: "s1 = s\<lparr>bestAgent := Some (agent_at pop (indexOf fs (Fin m))), bestFitness := Fin m\<rparr>"
      "evaluations w3 = evaluations w2"
      using assms(4) neg m(1) by (auto simp: updateBestAgent_def Let_def js_gt_def)
    have "(agent_at pop (indexOf fs (Fin m)), m) \<in> set (zip pop fs)"
      using agent_at_indexOf[OF m(2) assms(2)] .
    then show ?thesis using upd old new assms(3) by (auto simp: tracked_def list_all_iff)
  next
    case fin
    have all_old: "\<forall>p \<in> set (evaluations w). snd p \<le> b"
      using assms(1) fin by (auto simp: tracked_def list_all_iff)
    show ?thesis
    proof (cases "b < m")
      case True
      have upd: "s1 = s\<lparr>bestAgent := Some (agent_at pop (indexOf fs (Fin m))), bestFitness := Fin m\<rparr>"
        "evaluations w3 = evaluations w2"
        using assms(4) fin m(1) True by (auto simp: updateBestAgent_def Let_def js_gt_def)
      have "(agent_at pop (indexOf fs (Fin m)), m) \<in> set (zip pop fs)"
        using agent_at_indexOf[OF m(2) assms(2)] .
      moreover have "\<forall>p \<in> set (evaluations w). snd p \<le> m" using all_old True by fastforce
      ultimately show ?thesis using upd new assms(3) by (auto simp: tracked_def list_all_iff)
    next
      case False
      then have upd: "s1 = s" "w3 = w2"
        using assms(4) fin m(1) by (auto simp: updateBestAgent_def Let_def js_gt_def)
      have "\<forall>p \<in> set (zip pop fs). snd p \<le> b" using new False by fastforce
      then show ?thesis using upd fin all_old assms(3) by (auto simp: tracked_def list_all_iff)
    qed
  qed
qed

lemma generation_pass_tracked:
  assumes "tracked s w" and "generation_pass cfg E stops s w = (brk, s', w')"
  shows "tracked s' w' \<and> (population s \<noteq> [] \<longrightarrow> bestAgent s' \<noteq> None)
     \<and> (bestAgent s \<noteq> None \<longrightarrow> bestAgent s' \<noteq> None)"
proof -
  obtain newGen w1 where oak: "executeOakCycle cfg E (population s) w = (newGen, w1)"
    by (cases "executeOakCycle cfg E (population s) w")
  obtain fs w2 where ev: "evaluatePopulation cfg E newGen w1 = (fs, w2)"
    by (cases "evaluatePopulation cfg E newGen w1")
  obtain s1 w3 where up: "updateBestAgent s newGen fs w2 = (s1, w3)"
    by (cases "updateBestAgent s newGen fs w2")
  have len: "length newGen = length (population s)"
    using list_all2_lengthD[OF executeOakCycle_slots[of E "population s" cfg w]] oak by simp
  have lenfs: "length newGen = length fs"
    using evaluatePopulation_length[of cfg E newGen w1] ev by simp
  have "evaluations w1 = evaluations w"
    using evaluations_executeOakCycle[of cfg E "population s" w] oak by simp
  then have e2: "evaluations w2 = rev (zip newGen fs) @ evaluations w"
    using evaluations_evaluatePopulation[of cfg E newGen w1] ev by simp
  have t1: "tracked s1 w3 \<and> (fs \<noteq> [] \<longrightarrow> bestAgent s1 \<noteq> None)
     \<and> (bestAgent s \<noteq> None \<longrightarrow> bestAgent s1 \<noteq> None)"
    using updateBestAgent_tracked[OF assms(1) lenfs e2 up] .
  have same: "bestAgent s' = bestAgent s1 \<and> bestFitness s' = bestFitness s1
      \<and> evaluations w' = evaluations w3"
    using assms(2) oak ev up
    by (auto simp: generation_pass_def Let_def stop_def split_beta split: if_splits)
  then have "tracked s' w'" using t1
    by (auto simp: tracked_def split: option.splits jsnum.splits)
  moreover have "population s \<noteq> [] \<longrightarrow> fs \<noteq> []" using len lenfs by auto
  ultimately show ?thesis using t1 same by simp
qed

lemma run_loop_tracked:
  "tracked s w \<Longrightarrow>
   tracked (fst (run_loop cfg E stops s w)) (snd (run_loop cfg E stops s w))
   \<and> (bestAgent s \<noteq> None \<longrightarrow> bestAgent (fst (run_loop cfg E stops s w)) \<noteq> None)
   \<and> (isRunning s \<and> generation s < generationLimit cfg \<and> population s \<noteq> []
        \<longrightarrow> bestAgent (fst (run_loop cfg E stops s w)) \<noteq> None)"
proof (induction cfg E stops s w rule: run_loop.induct)
  case (1 cfg E stops s w)
  show ?case
  proof (cases "isRunning s \<and> generation s < generationLimit cfg")
    case False
    then show ?thesis using "1.prems" by (subst (1 2 3 4) run_loop.simps) auto
  next
    case True
    obtain brk s' w' where p: "generation_pass cfg E stops s w = (brk, s', w')"
      by (cases "generation_pass cfg E stops s w")
    have t: "tracked s' w'" "population s \<noteq> [] \<longrightarrow> bestAgent s' \<noteq> None"
      "bestAgent s \<noteq> None \<longrightarrow> bestAgent s' \<noteq> None"
      using generation_pass_tracked[OF "1.prems" p] by auto
    show ?thesis
    proof (cases brk)
      case True
      then have "run_loop cfg E stops s w = (s', w')"
        using \<open>isRunning s \<and> generation s < generationLimit cfg\<close> p
        by (subst run_loop.simps) (simp del: run_loop.simps)
      then show ?thesis using t by (simp del: run_loop.simps)
    next
      case False
      then have r: "run_loop cfg E stops s w = run_loop cfg E stops s' w'"
        using \<open>isRunning s \<and> generation s < generationLimit cfg\<close> p
        by (subst run_loop.simps) (simp del: run_loop.simps)
      have "tracked (fst (run_loop cfg E stops s' w')) (snd (run_loop cfg E stops s' w'))
        \<and> (bestAgent s' \<noteq> None \<longrightarrow> bestAgent (fst (run_loop cfg E stops s' w')) \<noteq> None)
        \<and> (isRunning s' \<and> generation s' < generationLimit cfg \<and> population s' \<noteq> []
            \<longrightarrow> bestAgent (fst (run_loop cfg E stops s' w')) \<noteq> None)"
        using "1.IH"[OF \<open>isRunning s \<and> generation s < generationLimit cfg\<close> p[symmetric] _ refl t(1)]
          False by simp
      then show ?thesis using r t by (simp del: run_loop.simps)
    qed
  qed
qed

lemma tracked_new_loop: "evaluations w = [] \<Longrightarrow> tracked (s\<lparr>bestAgent := None, bestFitness := NegInfinity\<rparr>) w"
  by (simp add: tracked_def)

text \<open>
  C1. A run on a fresh loop object, in a world that has recorded no evaluation yet, ends
  with a tracked best fitness that is at least the score of every evaluation the run
  made, in whatever generation; the agent returned is the tracked best agent; if the
  initial population is not empty and the generation limit is positive, an agent is
  returned and the tracked fitness is a score it received in the run. updateBestAgent
  replaces the tracked pair exactly when the maximum of the scores of the generation is
  strictly greater than the tracked best fitness.
\<close>

theorem best_fitness_running_maximum:
  assumes "run cfg E stops initialPopulation new_loop w = (best, s', w')"
    and "evaluations w = []"
  shows "list_all (\<lambda>p. js_le (Fin (snd p)) (bestFitness s')) (evaluations w')
   \<and> best = bestAgent s'
   \<and> (initialPopulation \<noteq> [] \<and> 0 < generationLimit cfg
        \<longrightarrow> (\<exists>a f. best = Some a \<and> bestFitness s' = Fin f \<and> (a, f) \<in> set (evaluations w')))
   \<and> (((bestAgent (fst (updateBestAgent s newGeneration fitnessScores w0)),
         bestFitness (fst (updateBestAgent s newGeneration fitnessScores w0)))
        \<noteq> (bestAgent s, bestFitness s))
      = js_gt (Math_max fitnessScores) (bestFitness s))"
proof -
  let ?s1 = "new_loop\<lparr>isRunning := True, population := initialPopulation, generation := 0\<rparr>"
  let ?w1 = "emit EvolutionStarted w"
  let ?r = "run_loop cfg E stops ?s1 ?w1"
  have t0: "tracked ?s1 ?w1" using assms(2) by (simp add: tracked_def new_loop_def)
  have res: "best = bestAgent (fst ?r)" "bestAgent s' = bestAgent (fst ?r)"
    "bestFitness s' = bestFitness (fst ?r)" "evaluations w' = evaluations (snd ?r)"
    using assms(1) by (auto simp: run_def Let_def split_beta simp del: run_loop.simps)
  have t: "tracked (fst ?r) (snd ?r)"
    and some: "isRunning ?s1 \<and> generation ?s1 < generationLimit cfg \<and> population ?s1 \<noteq> []
        \<longrightarrow> bestAgent (fst ?r) \<noteq> None"
    using run_loop_tracked[OF t0, of cfg E stops] by blast+
  have "list_all (\<lambda>p. js_le (Fin (snd p)) (bestFitness s')) (evaluations w')"
    using t res by (simp add: tracked_def)
  moreover have "best = bestAgent s'" using res by simp
  moreover have "\<exists>a f. best = Some a \<and> bestFitness s' = Fin f \<and> (a, f) \<in> set (evaluations w')"
    if "initialPopulation \<noteq> [] \<and> 0 < generationLimit cfg"
  proof -
    have "bestAgent (fst ?r) \<noteq> None" using some that by simp
    then show ?thesis using t res
      by (auto simp: tracked_def split: option.splits jsnum.splits)
  qed
  ultimately show ?thesis using updateBestAgent_changes[of s newGeneration fitnessScores w0]
    by blast
qed

theorem best_fitness_running_maximum_witness:
  "evaluations world0 = []
   \<and> fst (run cfg_one env_first_throws (\<lambda>g. False) [Agent 0] new_loop world0) = Some (Agent 0)
   \<and> bestFitness (fst (snd (run cfg_one env_first_throws (\<lambda>g. False) [Agent 0] new_loop world0)))
       = Fin (- 1)
   \<and> evaluations (snd (snd (run cfg_one env_first_throws (\<lambda>g. False) [Agent 0] new_loop world0)))
       = [(Agent 0, - 1)]"
proof -
  have e: "evaluations world0 = []" by (simp add: evaluations_def world0_def)
  from best_fitness_running_maximum[OF run_thrower_alone e] e run_thrower_alone
  show ?thesis by (simp add: evaluations_def)
qed

end
